theory Spec2Isabelle
  imports Complex_Main "HOL-Library.Sublist"
begin

section \<open>Python values used by the pipeline\<close>

text \<open>
  A Python \<open>str\<close> is a sequence of Unicode code points; \<open>len\<close>, slicing, \<open>rfind\<close>
  and the comparison operators all work on code points. The catalogue is Russian, so a
  string is modelled as the list of its code points. \<open>ustr\<close> writes an ASCII literal.
\<close>

type_synonym pystr = "nat list"

definition ustr :: "string \<Rightarrow> pystr" where
  "ustr s = map of_char s"

text \<open>
  Exceptions, as values. \<open>ValueError_unsupported_format\<close> is the \<open>ValueError\<close> that
  \<open>ingest_data\<close> raises itself, with the message \<open>Unsupported file format\<close>;
  \<open>LoaderError\<close> is whatever a loader raises while it reads and parses a file (a
  \<open>json.JSONDecodeError\<close> among them, which Python derives from \<open>ValueError\<close> and which
  is kept apart here); \<open>LibraryError\<close> is whatever the embedding model, the index or the
  file system raises inside \<open>add_documents\<close>.
\<close>

datatype error =
    IndexError
  | KeyError
  | FileNotFoundError
  | ValueError_unsupported_format
  | LoaderError
  | LibraryError

text \<open>\<open>xs[i]\<close>: a negative index counts from the end, an index out of range raises.\<close>

definition py_index :: "'a list \<Rightarrow> int \<Rightarrow> error + 'a" where
  "py_index xs i =
     (if 0 \<le> i \<and> i < int (length xs) then Inr (xs ! nat i)
      else if i < 0 \<and> - int (length xs) \<le> i then Inr (xs ! nat (int (length xs) + i))
      else Inl IndexError)"

text \<open>The clamping of one slice bound, as \<open>text[a:b]\<close> and \<open>text.rfind(c, a, b)\<close> do it.\<close>

definition adjust_index :: "nat \<Rightarrow> int \<Rightarrow> nat" where
  "adjust_index n i = (if i < 0 then nat (int n + i) else min (nat i) n)"

definition py_slice :: "'a list \<Rightarrow> int \<Rightarrow> int \<Rightarrow> 'a list" where
  "py_slice xs a b =
     (let lo = adjust_index (length xs) a; hi = adjust_index (length xs) b
      in take (hi - lo) (drop lo xs))"

text \<open>\<open>xs[:k]\<close>.\<close>

definition py_take :: "int \<Rightarrow> 'a list \<Rightarrow> 'a list" where
  "py_take k xs = py_slice xs 0 k"

text \<open>
  \<open>last_index c xs\<close> is the highest position of \<open>c\<close> in \<open>xs\<close>;
  \<open>text.rfind(c, a, b)\<close> for a one-character \<open>c\<close> is the highest position of \<open>c\<close>
  inside the clamped window, or \<open>-1\<close>.
\<close>

fun last_index :: "'a \<Rightarrow> 'a list \<Rightarrow> nat option" where
  "last_index c [] = None"
| "last_index c (x # xs) =
     (case last_index c xs of
        Some i \<Rightarrow> Some (Suc i)
      | None \<Rightarrow> (if x = c then Some 0 else None))"

definition rfind :: "pystr \<Rightarrow> nat \<Rightarrow> int \<Rightarrow> int \<Rightarrow> int" where
  "rfind text c a b =
     (let lo = adjust_index (length text) a; hi = adjust_index (length text) b
      in case last_index c (take (hi - lo) (drop lo text)) of
           None \<Rightarrow> - 1
         | Some i \<Rightarrow> int (lo + i))"

text \<open>The code points for which \<open>str.isspace\<close> holds; \<open>str.strip()\<close> removes them at both ends.\<close>

definition isspace :: "nat \<Rightarrow> bool" where
  "isspace c \<longleftrightarrow>
     (9 \<le> c \<and> c \<le> 13) \<or> (28 \<le> c \<and> c \<le> 32) \<or> c = 133 \<or> c = 160 \<or> c = 5760 \<or>
     (8192 \<le> c \<and> c \<le> 8202) \<or> c = 8232 \<or> c = 8233 \<or> c = 8239 \<or> c = 8287 \<or> c = 12288"

definition strip :: "pystr \<Rightarrow> pystr" where
  "strip s = rev (dropWhile isspace (rev (dropWhile isspace s)))"

text \<open>\<open>a < b\<close> on strings: lexicographic on code points; \<open>a >= b\<close> is its negation.\<close>

fun str_lt :: "pystr \<Rightarrow> pystr \<Rightarrow> bool" where
  "str_lt [] [] = False"
| "str_lt [] (y # ys) = True"
| "str_lt (x # xs) [] = False"
| "str_lt (x # xs) (y # ys) = (x < y \<or> (x = y \<and> str_lt xs ys))"

definition str_ge :: "pystr \<Rightarrow> pystr \<Rightarrow> bool" where
  "str_ge a b = (\<not> str_lt a b)"

text \<open>
  A \<open>dict\<close> keeps its keys in insertion order; assigning to a key that is present
  replaces the value where it stands, assigning to a new key appends.
\<close>

fun dict_set :: "('k \<times> 'v) list \<Rightarrow> 'k \<Rightarrow> 'v \<Rightarrow> ('k \<times> 'v) list" where
  "dict_set [] k v = [(k, v)]"
| "dict_set ((k', v') # kvs) k v =
     (if k' = k then (k, v) # kvs else (k', v') # dict_set kvs k v)"

section \<open>config.py\<close>

record Settings =
  top_k :: int
  chunk_size :: int
  chunk_overlap :: int

section \<open>vector\_store.py\<close>

record MuseumDocument =
  doc_id :: pystr
  museum_name :: pystr
  exhibition_title :: pystr
  description :: pystr
  start_date :: pystr
  end_date :: pystr
  tags :: "pystr list"
  location :: pystr
  accessibility :: "pystr list"
  audience :: "pystr list"

type_synonym vec = "real list"

text \<open>
  The store: the FAISS index (\<open>None\<close> until the first non-empty batch; otherwise the
  vectors in the order they were added), the insertion-ordered \<open>documents\<close> dict, and the
  two files \<open>faiss.index\<close> and \<open>documents.pkl\<close> that \<open>_save_index\<close> writes.
\<close>

record VectorStore =
  index :: "vec list option"
  documents :: "(pystr \<times> MuseumDocument) list"
  index_file :: "vec list option"
  docs_file :: "(pystr \<times> MuseumDocument) list option"

definition index_vectors :: "VectorStore \<Rightarrow> vec list" where
  "index_vectors st = (case index st of None \<Rightarrow> [] | Some vs \<Rightarrow> vs)"

definition save_index :: "VectorStore \<Rightarrow> VectorStore" where
  "save_index st =
     (case index st of
        None \<Rightarrow> st
      | Some vs \<Rightarrow> st\<lparr>index_file := Some vs, docs_file := Some (documents st)\<rparr>)"

text \<open>The text that is embedded for a document: \<open>f"{title}. {description}"\<close>.\<close>

definition embedding_text :: "MuseumDocument \<Rightarrow> pystr" where
  "embedding_text d = exhibition_title d @ ustr ''. '' @ description d"

text \<open>
  \<open>add_documents\<close>, for a call that runs to its end. The embedding model is
  third-party; \<open>emb\<close> is the vector it gives one text, and \<open>encode(texts)\<close> is
  \<open>map emb texts\<close>.
\<close>

definition add_documents :: "(pystr \<Rightarrow> vec) \<Rightarrow> MuseumDocument list \<Rightarrow> VectorStore \<Rightarrow> VectorStore" where
  "add_documents emb docs st =
     (if docs = [] then st
      else
        let documents' = foldl (\<lambda>m d. dict_set m (doc_id d) d) (documents st) docs;
            texts = map embedding_text docs;
            embeddings = map emb texts;
            index' = index_vectors st @ embeddings
        in save_index (st\<lparr>documents := documents', index := Some index'\<rparr>))"

text \<open>
  \<open>add_documents\<close> catches nothing, and its later steps call into libraries that
  can raise: \<open>encode\<close> (line 121), \<open>index.add\<close> (line 128) and the two writes of
  \<open>_save_index\<close> (line 131), the second after the index file was written. They come
  after the loop that assigns
  \<open>self.documents[doc.doc_id]\<close> (line 118), so a call that is cut short leaves the store
  changed. \<open>add_documents_run\<close> is the call with the point at which it is cut short, if
  any: it gives the exception, if one was raised, and the store as the call leaves it.
\<close>

datatype library_failure = EncodeRaises | IndexAddRaises | WriteIndexRaises | DumpRaises

definition add_documents_run ::
  "library_failure option \<Rightarrow> (pystr \<Rightarrow> vec) \<Rightarrow> MuseumDocument list \<Rightarrow> VectorStore \<Rightarrow>
   error option \<times> VectorStore" where
  "add_documents_run failure emb docs st =
     (if docs = [] then (None, st)
      else
        let documents' = foldl (\<lambda>m d. dict_set m (doc_id d) d) (documents st) docs;
            st1 = st\<lparr>documents := documents'\<rparr>
        in if failure = Some EncodeRaises then (Some LibraryError, st1)
           else
             let embeddings = map emb (map embedding_text docs);
                 st2 = st1\<lparr>index := Some (index_vectors st)\<rparr>
             in if failure = Some IndexAddRaises then (Some LibraryError, st2)
                else
                  let st3 = st2\<lparr>index := Some (index_vectors st @ embeddings)\<rparr>
                  in if failure = Some WriteIndexRaises then (Some LibraryError, st3)
                     else if failure = Some DumpRaises
                     then (Some LibraryError, st3\<lparr>index_file := index st3\<rparr>)
                     else (None, save_index st3))"

text \<open>
  \<open>search\<close>. FAISS is third-party: \<open>faiss_search vs q n\<close> stands for
  \<open>index.search(q, n)\<close> on an index holding the vectors \<open>vs\<close>, giving the
  \<open>(score, position)\<close> pairs in the order the library returns them (position \<open>-1\<close>
  marks a missing neighbour). What the library and the embedding model do inside,
  failures included, is not part of the model: both are parameters of every function that
  calls them.
\<close>

type_synonym index_search = "vec list \<Rightarrow> vec \<Rightarrow> int \<Rightarrow> (real \<times> int) list"

definition encode_query :: "(pystr \<Rightarrow> vec) \<Rightarrow> pystr \<Rightarrow> vec" where
  "encode_query emb query = emb (ustr ''query: '' @ query)"

text \<open>\<open>doc_id = list(self.documents.keys())[idx]; doc = self.documents[doc_id]\<close>.\<close>

definition document_at :: "VectorStore \<Rightarrow> int \<Rightarrow> error + MuseumDocument" where
  "document_at st idx =
     (case py_index (map fst (documents st)) idx of
        Inl e \<Rightarrow> Inl e
      | Inr key \<Rightarrow>
          (case map_of (documents st) key of
             None \<Rightarrow> Inl KeyError
           | Some doc \<Rightarrow> Inr doc))"

text \<open>
  One filter of \<open>search\<close>: \<open>if flt: if not any(w in have for w in flt): continue\<close>.
  \<open>None\<close> and the empty list are both falsy, so they let every document pass.
\<close>

definition passes_filter :: "pystr list option \<Rightarrow> pystr list \<Rightarrow> bool" where
  "passes_filter flt have =
     (case flt of
        None \<Rightarrow> True
      | Some ws \<Rightarrow> if ws = [] then True else list_ex (\<lambda>w. w \<in> set have) ws)"

fun search_loop ::
  "VectorStore \<Rightarrow> int \<Rightarrow> pystr list option \<Rightarrow> pystr list option \<Rightarrow> (real \<times> int) list \<Rightarrow>
   (MuseumDocument \<times> real) list \<Rightarrow> error + (MuseumDocument \<times> real) list" where
  "search_loop st k filter_tags filter_audience [] results = Inr results"
| "search_loop st k filter_tags filter_audience ((score, idx) # hits) results =
     (if idx = - 1 then Inr results
      else
        case document_at st idx of
          Inl e \<Rightarrow> Inl e
        | Inr doc \<Rightarrow>
            if \<not> passes_filter filter_tags (tags doc)
            then search_loop st k filter_tags filter_audience hits results
            else if \<not> passes_filter filter_audience (audience doc)
            then search_loop st k filter_tags filter_audience hits results
            else
              let results' = results @ [(doc, score)]
              in if int (length results') \<ge> k then Inr results'
                 else search_loop st k filter_tags filter_audience hits results')"

text \<open>\<open>top_k = top_k or settings.top_k\<close>: \<open>None\<close> and \<open>0\<close> are both falsy.\<close>

definition effective_top_k :: "Settings \<Rightarrow> int option \<Rightarrow> int" where
  "effective_top_k settings top_k_arg =
     (case top_k_arg of
        None \<Rightarrow> top_k settings
      | Some k \<Rightarrow> if k = 0 then top_k settings else k)"

definition search ::
  "index_search \<Rightarrow> (pystr \<Rightarrow> vec) \<Rightarrow> Settings \<Rightarrow> VectorStore \<Rightarrow> pystr \<Rightarrow> int option \<Rightarrow>
   pystr list option \<Rightarrow> pystr list option \<Rightarrow> error + (MuseumDocument \<times> real) list" where
  "search faiss_search emb settings st query top_k_arg filter_tags filter_audience =
     (if index st = None \<or> length (documents st) = 0 then Inr []
      else
        let k = effective_top_k settings top_k_arg;
            query_embedding = encode_query emb query;
            hits = faiss_search (index_vectors st) query_embedding
                     (min (k * 2) (int (length (documents st))))
        in search_loop st k filter_tags filter_audience hits [])"

section \<open>pipeline\_steps.py\<close>

record Entities =
  hobbies :: "pystr list"
  mood :: "pystr option"
  preferred_styles :: "pystr list"
  relationship :: "pystr option"

text \<open>
  The audience words of \<open>_get_audience_filter\<close>, as code points; in Latin letters they
  read vzroslye (adults), molodezh (youth), pozhilye (elderly), semya (family), deti
  (children) and podrostki (teenagers).
\<close>

definition adults :: pystr where "adults = [1074, 1079, 1088, 1086, 1089, 1083, 1099, 1077]"
definition youth :: pystr where "youth = [1084, 1086, 1083, 1086, 1076, 1077, 1078, 1100]"
definition elderly :: pystr where "elderly = [1087, 1086, 1078, 1080, 1083, 1099, 1077]"
definition family :: pystr where "family = [1089, 1077, 1084, 1100, 1103]"
definition children :: pystr where "children = [1076, 1077, 1090, 1080]"
definition teens :: pystr where "teens = [1087, 1086, 1076, 1088, 1086, 1089, 1090, 1082, 1080]"

definition audience_map :: "(pystr \<times> pystr list) list" where
  "audience_map =
     [(ustr ''partner'', [adults, youth]),
      (ustr ''grandparent'', [elderly, adults, family]),
      (ustr ''parent'', [family, adults]),
      (ustr ''friend'', [youth, adults]),
      (ustr ''child'', [children, family]),
      (ustr ''solo'', [adults, youth, teens])]"

text \<open>\<open>_get_audience_filter\<close>: \<open>not relationship\<close> holds for \<open>None\<close> and for the empty string.\<close>

definition get_audience_filter :: "pystr option \<Rightarrow> pystr list" where
  "get_audience_filter rel =
     (case rel of
        None \<Rightarrow> []
      | Some r \<Rightarrow>
          if r = [] then []
          else (case map_of audience_map r of Some a \<Rightarrow> a | None \<Rightarrow> [adults]))"

text \<open>The term tables of \<open>_build_search_query\<close>, as code points.\<close>

definition mood_terms :: "(pystr \<times> pystr list) list" where
  "mood_terms =
     [(ustr ''sad'',
        [[1089, 1087, 1086, 1082, 1086, 1081, 1085, 1099, 1081],
         [1088, 1072, 1079, 1084, 1099, 1096, 1083, 1103, 1102, 1097, 1080, 1081],
         [1090, 1080, 1093, 1080, 1081]]),
      (ustr ''happy'',
        [[1074, 1077, 1089, 1077, 1083, 1099, 1081],
         [1103, 1088, 1082, 1080, 1081],
         [1087, 1086, 1079, 1080, 1090, 1080, 1074, 1085, 1099, 1081]]),
      (ustr ''romantic'',
        [[1088, 1086, 1084, 1072, 1085, 1090, 1080, 1095, 1077, 1089, 1082, 1080, 1081],
         [1080, 1085, 1090, 1080, 1084, 1085, 1099, 1081],
         [1091, 1102, 1090, 1085, 1099, 1081]]),
      (ustr ''calm'',
        [[1089, 1087, 1086, 1082, 1086, 1081, 1085, 1099, 1081],
         [1084, 1077, 1076, 1080, 1090, 1072, 1090, 1080, 1074, 1085, 1099, 1081],
         [1075, 1072, 1088, 1084, 1086, 1085, 1080, 1095, 1085, 1099, 1081]])]"

definition rel_terms :: "(pystr \<times> pystr list) list" where
  "rel_terms =
     [(ustr ''partner'',
        [[1088, 1086, 1084, 1072, 1085, 1090, 1080, 1082, 1072],
         [1076, 1083, 1103, 32, 1076, 1074, 1086, 1080, 1093],
         [1080, 1085, 1090, 1080, 1084, 1085, 1099, 1081]]),
      (ustr ''grandparent'',
        [[1089, 1077, 1084, 1077, 1081, 1085, 1099, 1081],
         [1076, 1086, 1089, 1090, 1091, 1087, 1085, 1099, 1081],
         [1082, 1083, 1072, 1089, 1089, 1080, 1095, 1077, 1089, 1082, 1080, 1081]]),
      (ustr ''parent'',
        [[1089, 1077, 1084, 1077, 1081, 1085, 1099, 1081],
         [1076, 1083, 1103, 32, 1074, 1089, 1077, 1093, 32, 1074, 1086, 1079, 1088, 1072, 1089,
          1090, 1086, 1074]]),
      (ustr ''friend'',
        [[1080, 1085, 1090, 1077, 1088, 1077, 1089, 1085, 1099, 1081],
         [1086, 1073, 1089, 1091, 1078, 1076, 1072, 1077, 1084, 1099, 1081]]),
      (ustr ''child'',
        [[1076, 1077, 1090, 1089, 1082, 1080, 1081],
         [1080, 1085, 1090, 1077, 1088, 1072, 1082, 1090, 1080, 1074, 1085, 1099, 1081],
         [1086, 1073, 1088, 1072, 1079, 1086, 1074, 1072, 1090, 1077, 1083, 1100, 1085, 1099,
          1081]]),
      (ustr ''solo'',
        [[1080, 1085, 1076, 1080, 1074, 1080, 1076, 1091, 1072, 1083, 1100, 1085, 1099, 1081],
         [1089, 1072, 1084, 1086, 1089, 1090, 1086, 1103, 1090, 1077, 1083, 1100, 1085, 1099,
          1081]])]"

definition general_terms :: "pystr list" where
  "general_terms =
     [[1074, 1099, 1089, 1090, 1072, 1074, 1082, 1072],
      [1084, 1091, 1079, 1077, 1081],
      [1080, 1089, 1082, 1091, 1089, 1089, 1090, 1074, 1086]]"

text \<open>\<open>table.get(key, [])\<close> behind \<open>if key:\<close>, for an optional string key.\<close>

definition terms_for :: "(pystr \<times> pystr list) list \<Rightarrow> pystr option \<Rightarrow> pystr list" where
  "terms_for table key =
     (case key of
        None \<Rightarrow> []
      | Some k \<Rightarrow> if k = [] then [] else (case map_of table k of Some ts \<Rightarrow> ts | None \<Rightarrow> []))"

fun join :: "pystr \<Rightarrow> pystr list \<Rightarrow> pystr" where
  "join sep [] = []"
| "join sep [x] = x"
| "join sep (x # y # ys) = x @ sep @ join sep (y # ys)"

definition build_search_query :: "Entities \<Rightarrow> pystr" where
  "build_search_query entities =
     (let query_parts =
            hobbies entities @ terms_for mood_terms (mood entities) @ preferred_styles entities @
            terms_for rel_terms (relationship entities)
      in join (ustr '' '') (if query_parts = [] then general_terms else query_parts))"

text \<open>
  The fallback search of \<open>VectorSearchStep.execute\<close>:
  \<open>self.vector_store.search(query=search_query, top_k=settings.top_k * 2)\<close>.
\<close>

definition fallback_results ::
  "index_search \<Rightarrow> (pystr \<Rightarrow> vec) \<Rightarrow> Settings \<Rightarrow> VectorStore \<Rightarrow> pystr \<Rightarrow>
   error + (MuseumDocument \<times> real) list" where
  "fallback_results faiss_search emb settings st search_query =
     search faiss_search emb settings st search_query (Some (top_k settings * 2)) None None"

text \<open>
  The merge loop. \<open>existing_ids\<close> is computed once, from the filtered results, and is not
  extended while fallback documents are appended. A score is a Python float; the model
  takes it as a real number, so \<open>score * 0.9\<close> is exact here.
\<close>

fun merge_fallback ::
  "int \<Rightarrow> pystr set \<Rightarrow> (MuseumDocument \<times> real) list \<Rightarrow> MuseumDocument list \<Rightarrow> real list \<Rightarrow>
   MuseumDocument list \<times> real list" where
  "merge_fallback k existing_ids [] docs scores = (docs, scores)"
| "merge_fallback k existing_ids ((doc, score) # rest) docs scores =
     (if doc_id doc \<notin> existing_ids then
        let docs' = docs @ [doc]; scores' = scores @ [score * (9 / 10)]
        in if int (length docs') \<ge> k then (docs', scores')
           else merge_fallback k existing_ids rest docs' scores'
      else merge_fallback k existing_ids rest docs scores)"

text \<open>
  The first search of \<open>VectorSearchStep.execute\<close>, with the filters built from the
  entities: \<open>filter_tags if filter_tags else None\<close>, and the same for the audience.
\<close>

definition filtered_results ::
  "index_search \<Rightarrow> (pystr \<Rightarrow> vec) \<Rightarrow> Settings \<Rightarrow> VectorStore \<Rightarrow> Entities \<Rightarrow>
   error + (MuseumDocument \<times> real) list" where
  "filtered_results faiss_search emb settings st entities =
     (let filter_tags = hobbies entities @ preferred_styles entities;
          filter_audience = get_audience_filter (relationship entities)
      in search faiss_search emb settings st (build_search_query entities) (Some (top_k settings))
           (if filter_tags \<noteq> [] then Some filter_tags else None)
           (if filter_audience \<noteq> [] then Some filter_audience else None))"

text \<open>
  \<open>VectorSearchStep.execute\<close>: the result is the triple stored in the context under
  \<open>search_results\<close>, \<open>similarity_scores\<close> and \<open>search_query\<close>. This is the spec's
  \<open>recommend(preferences, topK)\<close> with \<open>topK = settings.top_k\<close>.
\<close>

definition execute ::
  "index_search \<Rightarrow> (pystr \<Rightarrow> vec) \<Rightarrow> Settings \<Rightarrow> VectorStore \<Rightarrow> Entities \<Rightarrow>
   error + (MuseumDocument list \<times> real list \<times> pystr)" where
  "execute faiss_search emb settings st entities =
     (let search_query = build_search_query entities
      in case filtered_results faiss_search emb settings st entities of
           Inl e \<Rightarrow> Inl e
         | Inr results \<Rightarrow>
             let docs = map fst results; scores = map snd results
             in if int (length docs) < top_k settings then
                  (case fallback_results faiss_search emb settings st search_query of
                     Inl e \<Rightarrow> Inl e
                   | Inr fallback \<Rightarrow>
                       (case merge_fallback (top_k settings) (set (map doc_id docs)) fallback
                               docs scores of
                          (docs', scores') \<Rightarrow>
                            Inr (py_take (top_k settings) docs',
                                 py_take (top_k settings) scores', search_query)))
                else Inr (py_take (top_k settings) docs, py_take (top_k settings) scores,
                          search_query))"

section \<open>ingestion.py\<close>

text \<open>The three \<open>rfind\<close> calls of \<open>chunk_text\<close>: \<open>.\<close> is 46, \<open>!\<close> is 33, \<open>?\<close> is 63.\<close>

definition sentence_end :: "pystr \<Rightarrow> int \<Rightarrow> int \<Rightarrow> int" where
  "sentence_end text start stop =
     (let s1 = rfind text 46 start stop;
          s2 = (if s1 = - 1 then rfind text 33 start stop else s1)
      in if s2 = - 1 then rfind text 63 start stop else s2)"

text \<open>The end of the window that starts at \<open>start\<close>.\<close>

definition window_end :: "pystr \<Rightarrow> int \<Rightarrow> int \<Rightarrow> int" where
  "window_end text chunk_sz start =
     (let stop = start + chunk_sz
      in if stop < int (length text) then
           (let se = sentence_end text start stop
            in if se \<noteq> - 1 \<and> se > start then se + 1 else stop)
         else stop)"

text \<open>
  The \<open>while\<close> loop of \<open>chunk_text\<close>. The loop need not end, so it runs on fuel, one unit
  for each iteration: \<open>None\<close> says that the fuel did not suffice.
\<close>

fun chunk_loop :: "nat \<Rightarrow> pystr \<Rightarrow> int \<Rightarrow> int \<Rightarrow> int \<Rightarrow> pystr list \<Rightarrow> pystr list option" where
  "chunk_loop 0 text chunk_sz overlap start chunks = None"
| "chunk_loop (Suc fuel) text chunk_sz overlap start chunks =
     (if start < int (length text) then
        let stop = window_end text chunk_sz start;
            chunk = strip (py_slice text start stop);
            chunks' = (if chunk \<noteq> [] then chunks @ [chunk] else chunks);
            start' = stop - overlap
        in if start' \<ge> int (length text) then Some chunks'
           else chunk_loop fuel text chunk_sz overlap start' chunks'
      else Some chunks)"

definition chunk_text :: "nat \<Rightarrow> pystr \<Rightarrow> int \<Rightarrow> int \<Rightarrow> pystr list option" where
  "chunk_text fuel text chunk_sz overlap =
     (if int (length text) \<le> chunk_sz then Some [text]
      else chunk_loop fuel text chunk_sz overlap 0 [])"

text \<open>\<open>str(i)\<close> for the chunk number.\<close>

fun decimal :: "nat \<Rightarrow> pystr" where
  "decimal n = (if n < 10 then [48 + n] else decimal (n div 10) @ [48 + n mod 10])"

declare decimal.simps [simp del]

definition create_exhibition_chunks :: "nat \<Rightarrow> Settings \<Rightarrow> MuseumDocument \<Rightarrow> MuseumDocument list option" where
  "create_exhibition_chunks fuel settings doc =
     (case chunk_text fuel (description doc) (chunk_size settings) (chunk_overlap settings) of
        None \<Rightarrow> None
      | Some chunks \<Rightarrow>
          Some (map (\<lambda>(i, chunk).
                  doc\<lparr>doc_id := doc_id doc @ ustr ''_chunk_'' @ decimal i, description := chunk\<rparr>)
                (enumerate 0 chunks)))"

text \<open>
  What \<open>ingest_data\<close> meets outside: whether the path exists, \<open>Path.suffix.lower()\<close>,
  the two loaders (\<open>None\<close> when a loader raises while reading or parsing),
  \<open>datetime.now().strftime('%Y-%m-%d')\<close>, and the library call of \<open>add_documents\<close> that
  raises during this call, if one does.
\<close>

record Env =
  path_exists :: "pystr \<Rightarrow> bool"
  suffix_lower :: "pystr \<Rightarrow> pystr"
  load_museum_data_from_csv :: "pystr \<Rightarrow> MuseumDocument list option"
  load_museum_data_from_json :: "pystr \<Rightarrow> MuseumDocument list option"
  current_date :: pystr
  failing_call :: "library_failure option"

text \<open>The format after the \<open>auto\<close> branch.\<close>

definition detect_format :: "Env \<Rightarrow> pystr \<Rightarrow> pystr \<Rightarrow> error + pystr" where
  "detect_format env data_path file_format =
     (if file_format = ustr ''auto'' then
        (if suffix_lower env data_path = ustr ''.csv'' then Inr (ustr ''csv'')
         else if suffix_lower env data_path = ustr ''.json'' then Inr (ustr ''json'')
         else Inl ValueError_unsupported_format)
      else Inr file_format)"

definition load_documents :: "Env \<Rightarrow> pystr \<Rightarrow> pystr \<Rightarrow> error + MuseumDocument list" where
  "load_documents env data_path file_format =
     (if file_format = ustr ''csv'' then
        (case load_museum_data_from_csv env data_path of None \<Rightarrow> Inl LoaderError | Some ds \<Rightarrow> Inr ds)
      else if file_format = ustr ''json'' then
        (case load_museum_data_from_json env data_path of None \<Rightarrow> Inl LoaderError | Some ds \<Rightarrow> Inr ds)
      else Inl ValueError_unsupported_format)"

text \<open>The expiry filter: \<open>if doc.end_date >= current_date: active_documents.append(doc)\<close>.\<close>

definition active_documents :: "pystr \<Rightarrow> MuseumDocument list \<Rightarrow> MuseumDocument list" where
  "active_documents today docs = filter (\<lambda>doc. str_ge (end_date doc) today) docs"

text \<open>The loop that builds \<open>all_chunks\<close>.\<close>

fun all_chunks :: "nat \<Rightarrow> Settings \<Rightarrow> MuseumDocument list \<Rightarrow> MuseumDocument list option" where
  "all_chunks fuel settings [] = Some []"
| "all_chunks fuel settings (doc # docs) =
     (if int (length (description doc)) > chunk_size settings then
        (case create_exhibition_chunks fuel settings doc of
           None \<Rightarrow> None
         | Some chunks \<Rightarrow>
             (case all_chunks fuel settings docs of
                None \<Rightarrow> None
              | Some rest \<Rightarrow> Some (chunks @ rest)))
      else
        (case all_chunks fuel settings docs of
           None \<Rightarrow> None
         | Some rest \<Rightarrow> Some (doc # rest)))"

text \<open>
  \<open>ingest_data\<close>: the outcome (the exception raised, or the count returned) together with
  the store as the call leaves it; \<open>None\<close> when chunking ran out of fuel. An exception
  raised inside \<open>vector_store.add_documents\<close> passes through, with the store as
  \<open>add_documents\<close> left it.
\<close>

definition ingest_data ::
  "nat \<Rightarrow> Env \<Rightarrow> Settings \<Rightarrow> (pystr \<Rightarrow> vec) \<Rightarrow> pystr \<Rightarrow> VectorStore \<Rightarrow> pystr \<Rightarrow>
   ((error + nat) \<times> VectorStore) option" where
  "ingest_data fuel env settings emb data_path st file_format =
     (if \<not> path_exists env data_path then Some (Inl FileNotFoundError, st)
      else
        case detect_format env data_path file_format of
          Inl e \<Rightarrow> Some (Inl e, st)
        | Inr fmt \<Rightarrow>
            (case load_documents env data_path fmt of
               Inl e \<Rightarrow> Some (Inl e, st)
             | Inr docs \<Rightarrow>
                 (case all_chunks fuel settings (active_documents (current_date env) docs) of
                    None \<Rightarrow> None
                  | Some batch \<Rightarrow>
                      (case add_documents_run (failing_call env) emb batch st of
                         (Some e, st') \<Rightarrow> Some (Inl e, st')
                       | (None, st') \<Rightarrow> Some (Inr (length batch), st')))))"

text \<open>
  \<open>VectorStore.__init__\<close> when nothing has been persisted yet: no index, no documents, no
  files.
\<close>

definition new_store :: VectorStore where
  "new_store = \<lparr>index = None, documents = [], index_file = None, docs_file = None\<rparr>"

section \<open>Conditions on the store and on the index library\<close>

text \<open>
  What FAISS promises about one answer to a search on an index of \<open>n\<close> vectors: every
  position is \<open>-1\<close> or a position of the index, and no position of the index is reported
  twice.
\<close>

definition valid_hits :: "nat \<Rightarrow> (real \<times> int) list \<Rightarrow> bool" where
  "valid_hits n hits \<longleftrightarrow>
     (\<forall>(s, i) \<in> set hits. - 1 \<le> i \<and> i < int n) \<and>
     distinct (filter (\<lambda>i. i \<noteq> - 1) (map snd hits))"

text \<open>
  The store as \<open>add_documents\<close> leaves it when no id was ever added twice: every key is the
  id of its document, and the index holds one vector for each document.
\<close>

definition store_ok :: "VectorStore \<Rightarrow> bool" where
  "store_ok st \<longleftrightarrow>
     distinct (map fst (documents st)) \<and>
     (\<forall>(key, doc) \<in> set (documents st). doc_id doc = key) \<and>
     length (index_vectors st) = length (documents st)"

section \<open>Statements of the specification, in its own words\<close>


text \<open>
  Follows the spec's words, not the source: the format "is neither csv nor json and
  cannot be detected from the extension".
\<close>

definition format_unsupported :: "Env \<Rightarrow> pystr \<Rightarrow> pystr \<Rightarrow> bool" where
  "format_unsupported env data_path file_format \<longleftrightarrow>
     file_format \<noteq> ustr ''csv'' \<and> file_format \<noteq> ustr ''json'' \<and>
     (file_format = ustr ''auto'' \<longrightarrow>
        suffix_lower env data_path \<noteq> ustr ''.csv'' \<and> suffix_lower env data_path \<noteq> ustr ''.json'')"

section \<open>A small catalogue for the examples\<close>

text \<open>
  Modelled from the spec: the similarity index, whose code (FAISS) is not in the
  repository. "Similarity metric: inner product"; "\<open>search\<close> returns at most \<open>k\<close>
  results, ordered by descending score, ties broken by index-insertion order (stable)".
\<close>

definition inner_product :: "vec \<Rightarrow> vec \<Rightarrow> real" where
  "inner_product u v = sum_list (map2 (*) u v)"

definition flat_ip_search :: index_search where
  "flat_ip_search vs q n =
     take (nat n)
       (sort_key (\<lambda>(s, i). - s) (zip (map (inner_product q) vs) (map int [0..<length vs])))"

text \<open>
  An embedding model for the examples: a unit vector chosen by the first character of the
  text (\<open>a\<close>, \<open>b\<close>, anything else).
\<close>

definition toy_emb :: "pystr \<Rightarrow> vec" where
  "toy_emb t =
     (case t of
        [] \<Rightarrow> [0, 1]
      | c # _ \<Rightarrow> if c = 97 then [1, 0] else if c = 98 then [3 / 5, 4 / 5] else [0, 1])"

definition photo :: pystr where "photo = ustr ''photo''"
definition history :: pystr where "history = ustr ''history''"

definition doc_a :: MuseumDocument where
  "doc_a = \<lparr>doc_id = ustr ''m1'', museum_name = ustr ''M1'', exhibition_title = ustr ''a'',
            description = ustr ''x'', start_date = ustr ''2025-01-01'',
            end_date = ustr ''2025-12-31'', tags = [photo], location = ustr ''L1'',
            accessibility = [], audience = [adults, youth]\<rparr>"

definition doc_b :: MuseumDocument where
  "doc_b = \<lparr>doc_id = ustr ''m2'', museum_name = ustr ''M2'', exhibition_title = ustr ''b'',
            description = ustr ''y'', start_date = ustr ''2025-01-01'',
            end_date = ustr ''2020-01-01'', tags = [history], location = ustr ''L2'',
            accessibility = [], audience = [adults, elderly]\<rparr>"

definition doc_c :: MuseumDocument where
  "doc_c = \<lparr>doc_id = ustr ''m3'', museum_name = ustr ''M3'', exhibition_title = ustr ''c'',
            description = ustr ''z'', start_date = ustr ''2025-01-01'',
            end_date = ustr ''2026-06-30'', tags = [photo, history], location = ustr ''L3'',
            accessibility = [], audience = [family, children]\<rparr>"

text \<open>A later record that reuses the id of \<open>doc_a\<close>.\<close>

definition doc_a2 :: MuseumDocument where
  "doc_a2 = doc_a\<lparr>exhibition_title := ustr ''c2''\<rparr>"

definition settings_k :: "int \<Rightarrow> Settings" where
  "settings_k k = \<lparr>top_k = k, chunk_size = 512, chunk_overlap = 50\<rparr>"

definition no_entities :: Entities where
  "no_entities = \<lparr>hobbies = [], mood = None, preferred_styles = [], relationship = None\<rparr>"

text \<open>
  Two more records, both running until the end of 2025: one whose description is 600
  letters \<open>a\<close>, one whose description is 600 blanks.
\<close>

definition doc_long :: MuseumDocument where
  "doc_long = doc_a\<lparr>doc_id := ustr ''m4'', description := replicate 600 97\<rparr>"

definition doc_blank :: MuseumDocument where
  "doc_blank = doc_a\<lparr>doc_id := ustr ''m5'', description := replicate 600 32\<rparr>"


text \<open>
  A file system for the examples: \<open>data.json\<close> holds the long record and the records
  \<open>doc_b\<close> and \<open>doc_c\<close>, \<open>blank.json\<close> holds the blank record, \<open>notes.txt\<close> exists,
  nothing else does; today is 2025-06-01, and no library call raises.
\<close>

definition example_env :: Env where
  "example_env =
     \<lparr>path_exists = (\<lambda>p. p = ustr ''data.json'' \<or> p = ustr ''blank.json'' \<or> p = ustr ''notes.txt''),
      suffix_lower = (\<lambda>p. if p = ustr ''data.json'' \<or> p = ustr ''blank.json'' then ustr ''.json''
                          else if p = ustr ''notes.txt'' then ustr ''.txt''
                          else if p = ustr ''gone.xml'' then ustr ''.xml'' else []),
      load_museum_data_from_csv = (\<lambda>p. None),
      load_museum_data_from_json =
        (\<lambda>p. if p = ustr ''data.json'' then Some [doc_long, doc_b, doc_c]
             else if p = ustr ''blank.json'' then Some [doc_blank] else None),
      current_date = ustr ''2025-06-01'',
      failing_call = None\<rparr>"

text \<open>The store after the three documents were added in one batch.\<close>

definition example_store :: VectorStore where
  "example_store = add_documents toy_emb [doc_a, doc_b, doc_c] new_store"

text \<open>The store after a batch that holds two records with the same id.\<close>

definition duplicate_store :: VectorStore where
  "duplicate_store = add_documents toy_emb [doc_a, doc_a2] new_store"

text \<open>The store after the same two records were added twice, as a second run of the
  application on the same data file does.\<close>

definition reingested_store :: VectorStore where
  "reingested_store =
     add_documents toy_emb [doc_a, doc_c] (add_documents toy_emb [doc_a, doc_c] new_store)"

section \<open>Facts about the Python primitives\<close>

lemma ustr_Nil [simp]: "ustr [] = []"
  by (simp add: ustr_def)

lemma ustr_Cons [simp]: "ustr (c # cs) = of_char c # ustr cs"
  by (simp add: ustr_def)

lemma map_of_audience_map_None:
  "r \<notin> set (map fst audience_map) \<Longrightarrow> map_of audience_map r = None"
  by (simp add: map_of_eq_None_iff)

section \<open>The audience filter\<close>

text \<open>
  C3, as the spec states it: the audience filter is empty when the relationship type is
  absent, and empty when it is present but not one of the mapped types. The second half
  fails: \<open>family\<close> is not a key of the table, and the filter it gets is not empty.
\<close>

theorem audience_filter_unmapped_counterexample:
  "ustr ''family'' \<notin> set (map fst audience_map) \<and>
   get_audience_filter (Some (ustr ''family'')) \<noteq> []"
  by (simp add: get_audience_filter_def audience_map_def)

text \<open>
  C3, amended: the audience filter is empty when the relationship type is absent (\<open>None\<close>
  or the empty string); when it is present but not one of the mapped types, the filter is
  the default list holding the one audience type "adults".
\<close>

theorem audience_filter_absent_or_unmapped:
  "(rel = None \<or> rel = Some [] \<longrightarrow> get_audience_filter rel = []) \<and>
   (\<forall>r. rel = Some r \<and> r \<noteq> [] \<and> r \<notin> set (map fst audience_map) \<longrightarrow>
        get_audience_filter rel = [adults])"
  by (auto simp: get_audience_filter_def map_of_audience_map_None simp del: set_map)

theorem audience_filter_absent_or_unmapped_witness:
  "get_audience_filter None = [] \<and> get_audience_filter (Some []) = [] \<and>
   ustr ''family'' \<noteq> [] \<and> ustr ''family'' \<notin> set (map fst audience_map) \<and>
   get_audience_filter (Some (ustr ''family'')) = [adults]"
proof -
  have fresh: "ustr ''family'' \<noteq> [] \<and> ustr ''family'' \<notin> set (map fst audience_map)"
    by (simp add: audience_map_def)
  from audience_filter_absent_or_unmapped [of None]
  have "get_audience_filter None = []" by simp
  moreover from audience_filter_absent_or_unmapped [of "Some []"]
  have "get_audience_filter (Some []) = []" by simp
  moreover from audience_filter_absent_or_unmapped [of "Some (ustr ''family'')"] fresh
  have "get_audience_filter (Some (ustr ''family'')) = [adults]" by blast
  ultimately show ?thesis using fresh by blast
qed

section \<open>Adding an empty batch\<close>

text \<open>
  C10: \<open>add_documents\<close> with an empty document list changes nothing: the documents, the
  index (which stays uninitialised if it was) and the two persisted files are all as
  before.
\<close>

theorem add_documents_empty_noop:
  "add_documents emb [] st = st"
  by (simp add: add_documents_def)

section \<open>Errors of \<open>ingest_data\<close>\<close>

lemma ustr_format_names [simp]:
  "ustr ''auto'' \<noteq> ustr ''csv''" "ustr ''auto'' \<noteq> ustr ''json''"
  "ustr ''csv'' \<noteq> ustr ''json''"
  by simp_all


lemma add_documents_run_error:
  "add_documents_run failure emb docs st = (Some e, st') \<Longrightarrow> e = LibraryError"
  by (auto simp: add_documents_run_def Let_def split: if_splits)


text \<open>A call of \<open>add_documents\<close> that is cut short leaves the new documents in the store.\<close>

lemma add_documents_cut_short:
  "add_documents_run (Some EncodeRaises) toy_emb [doc_a] new_store
     = (Some LibraryError, new_store\<lparr>documents := [(doc_id doc_a, doc_a)]\<rparr>)"
  by (simp add: add_documents_run_def new_store_def)

lemma ingest_data_missing:
  "\<not> path_exists env data_path \<Longrightarrow>
   ingest_data fuel env settings emb data_path st file_format = Some (Inl FileNotFoundError, st)"
  by (simp add: ingest_data_def)

lemma detect_format_unsupported:
  "format_unsupported env data_path file_format \<Longrightarrow>
   detect_format env data_path file_format = Inl ValueError_unsupported_format \<or>
   (\<exists>fmt. detect_format env data_path file_format = Inr fmt \<and>
          load_documents env data_path fmt = Inl ValueError_unsupported_format)"
  by (auto simp: detect_format_def load_documents_def format_unsupported_def)

lemma detect_format_supported:
  "\<not> format_unsupported env data_path file_format \<Longrightarrow>
   \<exists>fmt. detect_format env data_path file_format = Inr fmt \<and>
         load_documents env data_path fmt \<noteq> Inl ValueError_unsupported_format"
  by (auto simp: detect_format_def load_documents_def format_unsupported_def
      split: option.splits)

lemma ingest_data_unsupported:
  assumes "path_exists env data_path" and "format_unsupported env data_path file_format"
  shows "ingest_data fuel env settings emb data_path st file_format =
     Some (Inl ValueError_unsupported_format, st)"
  using detect_format_unsupported [OF assms(2)] assms(1)
  by (auto simp: ingest_data_def)

text \<open>Once the path exists and the format is supported, what is left to fail is a loader
  or a library call inside \<open>add_documents\<close>.\<close>

lemma ingest_data_later_errors:
  assumes "path_exists env data_path" and "\<not> format_unsupported env data_path file_format"
    and "ingest_data fuel env settings emb data_path st file_format = Some (Inl e, st')"
  shows "e = LoaderError \<or> e = LibraryError"
proof -
  from detect_format_supported [OF assms(2)] obtain fmt where
    fmt: "detect_format env data_path file_format = Inr fmt" and
    load: "load_documents env data_path fmt \<noteq> Inl ValueError_unsupported_format"
    by blast
  show ?thesis
  proof (cases "load_documents env data_path fmt")
    case (Inl err)
    with load have "err = LoaderError"
      by (auto simp: load_documents_def split: if_splits option.splits)
    with assms(1,3) fmt Inl show ?thesis by (simp add: ingest_data_def)
  next
    case (Inr docs)
    show ?thesis
    proof (cases "all_chunks fuel settings (active_documents (current_date env) docs)")
      case None
      with assms(1,3) fmt Inr show ?thesis by (simp add: ingest_data_def)
    next
      case (Some batch)
      obtain res st2 where run: "add_documents_run (failing_call env) emb batch st = (res, st2)"
        by (cases "add_documents_run (failing_call env) emb batch st")
      with assms(1,3) fmt Inr Some have "res = Some e"
        by (cases res) (simp_all add: ingest_data_def)
      with run add_documents_run_error show ?thesis by blast
    qed
  qed
qed

lemma ingest_data_error_kinds:
  "ingest_data fuel env settings emb data_path st file_format = Some (Inl FileNotFoundError, st')
     \<Longrightarrow> \<not> path_exists env data_path"
  "ingest_data fuel env settings emb data_path st file_format
     = Some (Inl ValueError_unsupported_format, st')
     \<Longrightarrow> path_exists env data_path \<and> format_unsupported env data_path file_format"
proof -
  assume run: "ingest_data fuel env settings emb data_path st file_format
      = Some (Inl FileNotFoundError, st')"
  show "\<not> path_exists env data_path"
  proof
    assume ex: "path_exists env data_path"
    show False
    proof (cases "format_unsupported env data_path file_format")
      case True
      from ingest_data_unsupported [OF ex True, of fuel settings emb st] run show False by simp
    next
      case False
      from ingest_data_later_errors [OF ex False run] show False by simp
    qed
  qed
next
  assume run: "ingest_data fuel env settings emb data_path st file_format
      = Some (Inl ValueError_unsupported_format, st')"
  have ex: "path_exists env data_path"
  proof (rule ccontr)
    assume "\<not> path_exists env data_path"
    from ingest_data_missing [OF this, of fuel settings emb st file_format] run
    show False by simp
  qed
  moreover have "format_unsupported env data_path file_format"
  proof (rule ccontr)
    assume "\<not> format_unsupported env data_path file_format"
    from ingest_data_later_errors [OF ex this run] show False by simp
  qed
  ultimately show "path_exists env data_path \<and> format_unsupported env data_path file_format"
    by blast
qed

text \<open>
  C9, as the spec states it: the format error is raised exactly when the format is neither
  csv nor json and cannot be detected from the extension. At a path that does not exist
  the format of \<open>gone.xml\<close> cannot be detected either, yet the call fails with the not-found
  error: the existence check comes first.
\<close>

theorem ingest_format_error_counterexample:
  "format_unsupported example_env (ustr ''gone.xml'') (ustr ''auto'') \<and>
   ingest_data 0 example_env (settings_k 5) toy_emb (ustr ''gone.xml'') new_store (ustr ''auto'')
     = Some (Inl FileNotFoundError, new_store) \<and>
   FileNotFoundError \<noteq> ValueError_unsupported_format"
  by (simp add: format_unsupported_def ingest_data_def example_env_def)

text \<open>
  C9, amended: \<open>ingest_data\<close> fails with the not-found error exactly when the source path
  does not exist; it fails with the format error exactly when the path exists and the
  format is unsupported (the format is \<open>auto\<close> and the lower-cased extension is neither
  \<open>.csv\<close> nor \<open>.json\<close>, or the format is none of \<open>auto\<close>, \<open>csv\<close>, \<open>json\<close>); and in
  both of these failure cases the store, that is the documents, the index and the two
  persisted files, is left as it was.
\<close>

theorem ingest_data_errors:
  "((\<exists>st'. ingest_data fuel env settings emb data_path st file_format =
        Some (Inl FileNotFoundError, st')) \<longleftrightarrow> \<not> path_exists env data_path) \<and>
   ((\<exists>st'. ingest_data fuel env settings emb data_path st file_format =
        Some (Inl ValueError_unsupported_format, st')) \<longleftrightarrow>
      path_exists env data_path \<and> format_unsupported env data_path file_format) \<and>
   (\<forall>st'. ingest_data fuel env settings emb data_path st file_format
            = Some (Inl FileNotFoundError, st') \<or>
          ingest_data fuel env settings emb data_path st file_format
            = Some (Inl ValueError_unsupported_format, st') \<longrightarrow>
      st' = st)"
proof -
  have missing: "(\<exists>st'. ingest_data fuel env settings emb data_path st file_format =
        Some (Inl FileNotFoundError, st')) \<longleftrightarrow> \<not> path_exists env data_path"
    using ingest_data_missing ingest_data_error_kinds(1) by blast
  have unsupported: "(\<exists>st'. ingest_data fuel env settings emb data_path st file_format =
        Some (Inl ValueError_unsupported_format, st')) \<longleftrightarrow>
      path_exists env data_path \<and> format_unsupported env data_path file_format"
    using ingest_data_unsupported ingest_data_error_kinds(2) by blast
  have kept: "st' = st"
    if "ingest_data fuel env settings emb data_path st file_format
            = Some (Inl FileNotFoundError, st') \<or>
        ingest_data fuel env settings emb data_path st file_format
            = Some (Inl ValueError_unsupported_format, st')" for st'
    using that
  proof
    assume run: "ingest_data fuel env settings emb data_path st file_format
            = Some (Inl FileNotFoundError, st')"
    from ingest_data_error_kinds(1) [OF run]
    have "ingest_data fuel env settings emb data_path st file_format
            = Some (Inl FileNotFoundError, st)"
      by (rule ingest_data_missing)
    with run show ?thesis by simp
  next
    assume run: "ingest_data fuel env settings emb data_path st file_format
            = Some (Inl ValueError_unsupported_format, st')"
    from ingest_data_error_kinds(2) [OF run]
    have "ingest_data fuel env settings emb data_path st file_format
            = Some (Inl ValueError_unsupported_format, st)"
      by (blast intro: ingest_data_unsupported)
    with run show ?thesis by simp
  qed
  from missing unsupported kept show ?thesis by blast
qed

theorem ingest_data_errors_witness:
  "\<not> path_exists example_env (ustr ''gone.xml'') \<and>
   ingest_data 0 example_env (settings_k 5) toy_emb (ustr ''gone.xml'') new_store (ustr ''auto'')
     = Some (Inl FileNotFoundError, new_store) \<and>
   path_exists example_env (ustr ''notes.txt'') \<and>
   format_unsupported example_env (ustr ''notes.txt'') (ustr ''auto'') \<and>
   ingest_data 0 example_env (settings_k 5) toy_emb (ustr ''notes.txt'') new_store (ustr ''auto'')
     = Some (Inl ValueError_unsupported_format, new_store)"
proof -
  have gone: "\<not> path_exists example_env (ustr ''gone.xml'')"
    by (simp add: example_env_def)
  have present: "path_exists example_env (ustr ''notes.txt'')"
    "format_unsupported example_env (ustr ''notes.txt'') (ustr ''auto'')"
    by (simp_all add: example_env_def format_unsupported_def)
  note gone_thm = ingest_data_errors [of 0 example_env "settings_k 5" toy_emb "ustr ''gone.xml''"
      new_store "ustr ''auto''"]
  note present_thm = ingest_data_errors [of 0 example_env "settings_k 5" toy_emb
      "ustr ''notes.txt''" new_store "ustr ''auto''"]
  from gone_thm gone obtain st1 where
    run1: "ingest_data 0 example_env (settings_k 5) toy_emb (ustr ''gone.xml'') new_store
       (ustr ''auto'') = Some (Inl FileNotFoundError, st1)"
    by blast
  with gone_thm have "st1 = new_store" by blast
  with run1 have a:
    "ingest_data 0 example_env (settings_k 5) toy_emb (ustr ''gone.xml'') new_store (ustr ''auto'')
       = Some (Inl FileNotFoundError, new_store)"
    by simp
  from present_thm present obtain st2 where
    run2: "ingest_data 0 example_env (settings_k 5) toy_emb (ustr ''notes.txt'') new_store
       (ustr ''auto'') = Some (Inl ValueError_unsupported_format, st2)"
    by blast
  with present_thm have "st2 = new_store" by blast
  with run2 have b:
    "ingest_data 0 example_env (settings_k 5) toy_emb (ustr ''notes.txt'') new_store (ustr ''auto'')
       = Some (Inl ValueError_unsupported_format, new_store)"
    by simp
  from a b gone present show ?thesis by blast
qed

section \<open>The filters of \<open>search\<close>\<close>

lemma passes_filter_Some:
  "passes_filter (Some ws) have \<Longrightarrow> ws \<noteq> [] \<Longrightarrow> set ws \<inter> set have \<noteq> {}"
  by (auto simp: passes_filter_def list_ex_iff)

lemma search_loop_filtered:
  "search_loop st k ft fa hits acc = Inr rs \<Longrightarrow> (d, s) \<in> set rs \<Longrightarrow>
   (d, s) \<in> set acc \<or> (passes_filter ft (tags d) \<and> passes_filter fa (audience d))"
proof (induction hits arbitrary: acc)
  case Nil
  then show ?case by simp
next
  case (Cons hit hits)
  obtain score idx where hit: "hit = (score, idx)" by (cases hit)
  show ?case
  proof (cases "idx = - 1")
    case True
    with Cons.prems hit show ?thesis by simp
  next
    case False
    with Cons.prems hit obtain doc where doc: "document_at st idx = Inr doc"
      by (auto split: sum.splits)
    show ?thesis
    proof (cases "passes_filter ft (tags doc) \<and> passes_filter fa (audience doc)")
      case False
      with Cons.prems hit doc \<open>idx \<noteq> - 1\<close>
      have "search_loop st k ft fa hits acc = Inr rs" by (auto split: if_splits)
      from Cons.IH [OF this Cons.prems(2)] show ?thesis .
    next
      case True
      show ?thesis
      proof (cases "int (length (acc @ [(doc, score)])) \<ge> k")
        case True
        with Cons.prems hit doc \<open>idx \<noteq> - 1\<close>
          \<open>passes_filter ft (tags doc) \<and> passes_filter fa (audience doc)\<close>
        have "rs = acc @ [(doc, score)]" by (simp add: Let_def)
        with Cons.prems(2) \<open>passes_filter ft (tags doc) \<and> passes_filter fa (audience doc)\<close>
        show ?thesis by auto
      next
        case False
        with Cons.prems hit doc \<open>idx \<noteq> - 1\<close>
          \<open>passes_filter ft (tags doc) \<and> passes_filter fa (audience doc)\<close>
        have "search_loop st k ft fa hits (acc @ [(doc, score)]) = Inr rs"
          by (simp add: Let_def)
        from Cons.IH [OF this Cons.prems(2)]
          \<open>passes_filter ft (tags doc) \<and> passes_filter fa (audience doc)\<close>
        show ?thesis by auto
      qed
    qed
  qed
qed

text \<open>
  C7: whenever \<open>search\<close> is called with a non-empty \<open>filter_tags\<close> list, every document in
  the result has a tag in common with \<open>filter_tags\<close>; with a non-empty \<open>filter_audience\<close>
  list, every document in the result has an audience type in common with
  \<open>filter_audience\<close>. This holds for every store, every \<open>top_k\<close> and whatever the index
  library returns.
\<close>

theorem search_filter_correct:
  assumes "search faiss_search emb settings st query top_k_arg filter_tags filter_audience
             = Inr results"
    and "(doc, score) \<in> set results"
  shows "(\<forall>ts. filter_tags = Some ts \<and> ts \<noteq> [] \<longrightarrow> set ts \<inter> set (tags doc) \<noteq> {}) \<and>
         (\<forall>as. filter_audience = Some as \<and> as \<noteq> [] \<longrightarrow> set as \<inter> set (audience doc) \<noteq> {})"
proof -
  from assms have
    "passes_filter filter_tags (tags doc) \<and> passes_filter filter_audience (audience doc)"
    by (auto simp: search_def Let_def split: if_splits dest: search_loop_filtered)
  then show ?thesis by (auto dest: passes_filter_Some)
qed

section \<open>Positions in the index and keys of the store\<close>

lemma dict_set_fresh: "k \<notin> set (map fst m) \<Longrightarrow> dict_set m k v = m @ [(k, v)]"
  by (induction m) auto

lemma foldl_dict_set_fresh:
  "distinct (map fst m @ map doc_id docs) \<Longrightarrow>
   foldl (\<lambda>m d. dict_set m (doc_id d) d) m docs = m @ map (\<lambda>d. (doc_id d, d)) docs"
proof (induction docs arbitrary: m)
  case Nil
  then show ?case by simp
next
  case (Cons d docs)
  from Cons.prems have fresh: "doc_id d \<notin> set (map fst m)" by auto
  from Cons.prems have "distinct (map fst (m @ [(doc_id d, d)]) @ map doc_id docs)" by auto
  from Cons.IH [OF this] fresh show ?case by (simp add: dict_set_fresh)
qed

lemma index_vectors_save_index [simp]: "index_vectors (save_index st) = index_vectors st"
  by (simp add: save_index_def index_vectors_def split: option.splits)

lemma index_save_index [simp]: "index (save_index st) = index st"
  by (simp add: save_index_def split: option.splits)

lemma documents_save_index [simp]: "documents (save_index st) = documents st"
  by (simp add: save_index_def split: option.splits)

lemma add_documents_appends:
  assumes "documents st = map (\<lambda>d. (doc_id d, d)) ds"
    and "index_vectors st = map (\<lambda>d. emb (embedding_text d)) ds"
    and "distinct (map doc_id (ds @ docs))"
  shows "documents (add_documents emb docs st) = map (\<lambda>d. (doc_id d, d)) (ds @ docs) \<and>
         index_vectors (add_documents emb docs st) = map (\<lambda>d. emb (embedding_text d)) (ds @ docs)"
proof (cases "docs = []")
  case True
  with assms show ?thesis by (simp add: add_documents_def)
next
  case False
  from assms(1,3) have "distinct (map fst (documents st) @ map doc_id docs)"
    by (simp add: comp_def)
  from foldl_dict_set_fresh [OF this] assms(1)
  have "foldl (\<lambda>m d. dict_set m (doc_id d) d) (documents st) docs
          = map (\<lambda>d. (doc_id d, d)) (ds @ docs)"
    by simp
  with False assms(2) show ?thesis
    by (simp add: add_documents_def Let_def index_vectors_def comp_def)
qed

lemma foldl_add_documents:
  assumes "documents st = map (\<lambda>d. (doc_id d, d)) ds"
    and "index_vectors st = map (\<lambda>d. emb (embedding_text d)) ds"
    and "distinct (map doc_id (ds @ concat batches))"
  shows "documents (foldl (\<lambda>s b. add_documents emb b s) st batches)
           = map (\<lambda>d. (doc_id d, d)) (ds @ concat batches) \<and>
         index_vectors (foldl (\<lambda>s b. add_documents emb b s) st batches)
           = map (\<lambda>d. emb (embedding_text d)) (ds @ concat batches)"
  using assms
proof (induction batches arbitrary: st ds)
  case Nil
  then show ?case by simp
next
  case (Cons b batches)
  from Cons.prems(3) have "distinct (map doc_id (ds @ b))" by auto
  from add_documents_appends [OF Cons.prems(1,2) this]
  have step: "documents (add_documents emb b st) = map (\<lambda>d. (doc_id d, d)) (ds @ b)"
    "index_vectors (add_documents emb b st) = map (\<lambda>d. emb (embedding_text d)) (ds @ b)"
    by simp_all
  from Cons.prems(3) have "distinct (map doc_id ((ds @ b) @ concat batches))" by simp
  from Cons.IH [OF step this] show ?case by simp
qed

lemma document_at_position:
  assumes "documents st = map (\<lambda>d. (doc_id d, d)) ds" and "distinct (map doc_id ds)"
    and "i < length ds"
  shows "document_at st (int i) = Inr (ds ! i)"
proof -
  from assms(1,3) have key: "py_index (map fst (documents st)) (int i) = Inr (doc_id (ds ! i))"
    by (simp add: py_index_def comp_def)
  from assms(2) have "distinct (map fst (map (\<lambda>d. (doc_id d, d)) ds))"
    by (simp add: comp_def)
  moreover from assms(3) have "(doc_id (ds ! i), ds ! i) \<in> set (map (\<lambda>d. (doc_id d, d)) ds)"
    by auto
  ultimately have "map_of (map (\<lambda>d. (doc_id d, d)) ds) (doc_id (ds ! i)) = Some (ds ! i)"
    by (rule map_of_is_SomeI)
  with key assms(1) show ?thesis by (simp add: document_at_def)
qed

lemma store_ok_of_documents:
  assumes "documents st = map (\<lambda>d. (doc_id d, d)) ds"
    and "index_vectors st = map (\<lambda>d. emb (embedding_text d)) ds"
    and "distinct (map doc_id ds)"
  shows "store_ok st"
  using assms by (auto simp: store_ok_def comp_def)

text \<open>
  C8: after any sequence of \<open>add_documents\<close> calls on a fresh store in which all document
  ids are pairwise distinct (nothing is ever deleted), the keys of the store are the ids in
  the order they were added, the index holds one vector for each of them, the vector at
  position \<open>i\<close> is the embedding of the \<open>i\<close>-th document added, and the lookup that
  \<open>search\<close> applies to a hit at position \<open>i\<close> yields exactly that document.
\<close>

theorem add_documents_positions_aligned:
  assumes "distinct (map doc_id (concat batches))"
  shows "map fst (documents (foldl (\<lambda>s b. add_documents emb b s) new_store batches))
           = map doc_id (concat batches) \<and>
         length (index_vectors (foldl (\<lambda>s b. add_documents emb b s) new_store batches))
           = length (concat batches) \<and>
         (\<forall>i < length (concat batches).
            index_vectors (foldl (\<lambda>s b. add_documents emb b s) new_store batches) ! i
              = emb (embedding_text (concat batches ! i)) \<and>
            document_at (foldl (\<lambda>s b. add_documents emb b s) new_store batches) (int i)
              = Inr (concat batches ! i))"
proof -
  let ?st = "foldl (\<lambda>s b. add_documents emb b s) new_store batches"
  have "documents new_store = map (\<lambda>d. (doc_id d, d)) []"
    "index_vectors new_store = map (\<lambda>d. emb (embedding_text d)) []"
    by (simp_all add: new_store_def index_vectors_def)
  from foldl_add_documents [OF this] assms
  have docs: "documents ?st = map (\<lambda>d. (doc_id d, d)) (concat batches)"
    and vecs: "index_vectors ?st = map (\<lambda>d. emb (embedding_text d)) (concat batches)"
    by simp_all
  from docs have "map fst (documents ?st) = map doc_id (concat batches)"
    by (simp add: comp_def)
  moreover from vecs have "length (index_vectors ?st) = length (concat batches)" by simp
  moreover have "\<forall>i < length (concat batches).
      index_vectors ?st ! i = emb (embedding_text (concat batches ! i)) \<and>
      document_at ?st (int i) = Inr (concat batches ! i)"
    using vecs document_at_position [OF docs assms] by simp
  ultimately show ?thesis by blast
qed

lemma example_ids_distinct: "distinct (map doc_id (concat [[doc_a], [doc_b, doc_c]]))"
  by (simp add: doc_a_def doc_b_def doc_c_def)

theorem add_documents_positions_aligned_witness:
  "distinct (map doc_id (concat [[doc_a], [doc_b, doc_c]])) \<and>
   map fst (documents (add_documents toy_emb [doc_b, doc_c] (add_documents toy_emb [doc_a] new_store)))
     = [doc_id doc_a, doc_id doc_b, doc_id doc_c] \<and>
   index_vectors (add_documents toy_emb [doc_b, doc_c] (add_documents toy_emb [doc_a] new_store)) ! 2
     = toy_emb (embedding_text doc_c) \<and>
   document_at (add_documents toy_emb [doc_b, doc_c] (add_documents toy_emb [doc_a] new_store)) 2
     = Inr doc_c"
proof -
  let ?st = "add_documents toy_emb [doc_b, doc_c] (add_documents toy_emb [doc_a] new_store)"
  note aligned = add_documents_positions_aligned [OF example_ids_distinct, of toy_emb]
  from aligned have keys: "map fst (documents ?st) = [doc_id doc_a, doc_id doc_b, doc_id doc_c]"
    by simp
  from aligned have "\<forall>i < 3. index_vectors ?st ! i = toy_emb (embedding_text ([doc_a, doc_b, doc_c] ! i)) \<and>
      document_at ?st (int i) = Inr ([doc_a, doc_b, doc_c] ! i)"
    by simp
  from this [rule_format, of 2]
  have "index_vectors ?st ! 2 = toy_emb (embedding_text doc_c) \<and> document_at ?st 2 = Inr doc_c"
    by simp
  with keys example_ids_distinct show ?thesis by blast
qed

section \<open>The example store, evaluated\<close>

lemma example_store_documents:
  "documents example_store = map (\<lambda>d. (doc_id d, d)) [doc_a, doc_b, doc_c]"
  and example_store_vectors:
  "index_vectors example_store = map (\<lambda>d. toy_emb (embedding_text d)) [doc_a, doc_b, doc_c]"
proof -
  have "documents new_store = map (\<lambda>d. (doc_id d, d)) []"
    "index_vectors new_store = map (\<lambda>d. toy_emb (embedding_text d)) []"
    by (simp_all add: new_store_def index_vectors_def)
  moreover have "distinct (map doc_id ([] @ [doc_a, doc_b, doc_c]))"
    by (simp add: doc_a_def doc_b_def doc_c_def)
  ultimately have
    "documents example_store = map (\<lambda>d. (doc_id d, d)) ([] @ [doc_a, doc_b, doc_c]) \<and>
     index_vectors example_store
       = map (\<lambda>d. toy_emb (embedding_text d)) ([] @ [doc_a, doc_b, doc_c])"
    unfolding example_store_def by (rule add_documents_appends)
  then show "documents example_store = map (\<lambda>d. (doc_id d, d)) [doc_a, doc_b, doc_c]"
    and "index_vectors example_store = map (\<lambda>d. toy_emb (embedding_text d)) [doc_a, doc_b, doc_c]"
    by simp_all
qed

lemma example_store_index: "index example_store \<noteq> None"
  by (simp add: example_store_def add_documents_def Let_def)

lemma example_store_ok: "store_ok example_store"
  using example_store_documents example_store_vectors
  by (rule store_ok_of_documents) (simp add: doc_a_def doc_b_def doc_c_def)

lemma example_vectors:
  "toy_emb (embedding_text doc_a) = [1, 0]"
  "toy_emb (embedding_text doc_b) = [3 / 5, 4 / 5]"
  "toy_emb (embedding_text doc_c) = [0, 1]"
  by (simp_all add: toy_emb_def embedding_text_def doc_a_def doc_b_def doc_c_def)

lemma encode_query_toy: "encode_query toy_emb q = [0, 1]"
  by (simp add: encode_query_def toy_emb_def)

lemma example_document_at:
  "document_at example_store 0 = Inr doc_a"
  "document_at example_store 1 = Inr doc_b"
  "document_at example_store 2 = Inr doc_c"
proof -
  have d: "distinct (map doc_id [doc_a, doc_b, doc_c])"
    by (simp add: doc_a_def doc_b_def doc_c_def)
  from document_at_position [OF example_store_documents d, of 0]
  show "document_at example_store 0 = Inr doc_a" by simp
  from document_at_position [OF example_store_documents d, of 1]
  show "document_at example_store 1 = Inr doc_b" by simp
  from document_at_position [OF example_store_documents d, of 2]
  show "document_at example_store 2 = Inr doc_c" by simp
qed

lemma example_hits:
  "flat_ip_search (index_vectors example_store) [0, 1] 2 = [(1, 2), (4 / 5, 1)]"
  "flat_ip_search (index_vectors example_store) [0, 1] 3 = [(1, 2), (4 / 5, 1), (0, 0)]"
  by (simp_all add: example_store_vectors example_vectors flat_ip_search_def inner_product_def
      upt_rec [of 0] upt_rec [of 1] upt_rec [of 2] upt_rec [of 3])

lemma example_tags:
  "passes_filter (Some [photo]) (tags doc_a)"
  "\<not> passes_filter (Some [photo]) (tags doc_b)"
  "passes_filter (Some [photo]) (tags doc_c)"
  "passes_filter (Some [adults]) (audience doc_a)"
  "\<not> passes_filter (Some [adults]) (audience doc_c)"
  "passes_filter None ws"
  by (simp_all add: passes_filter_def doc_a_def doc_b_def doc_c_def photo_def history_def
      adults_def family_def children_def youth_def)

lemma example_search_filtered:
  "search flat_ip_search toy_emb (settings_k 3) example_store q (Some 3)
     (Some [photo]) (Some [adults]) = Inr [(doc_a, 0)]"
  using example_store_index
  by (simp add: search_def effective_top_k_def settings_k_def example_store_documents
      encode_query_toy example_hits example_document_at example_tags)

theorem search_filter_correct_witness:
  "search flat_ip_search toy_emb (settings_k 3) example_store (ustr ''art'') (Some 3)
     (Some [photo]) (Some [adults]) = Inr [(doc_a, 0)] \<and>
   (doc_a, 0) \<in> set [(doc_a, 0 :: real)] \<and>
   set [photo] \<inter> set (tags doc_a) \<noteq> {} \<and> set [adults] \<inter> set (audience doc_a) \<noteq> {}"
proof -
  have run: "search flat_ip_search toy_emb (settings_k 3) example_store (ustr ''art'') (Some 3)
     (Some [photo]) (Some [adults]) = Inr [(doc_a, 0)]"
    by (rule example_search_filtered)
  have mem: "(doc_a, 0) \<in> set [(doc_a, 0 :: real)]" by simp
  from search_filter_correct [OF run mem]
  have "set [photo] \<inter> set (tags doc_a) \<noteq> {} \<and> set [adults] \<inter> set (audience doc_a) \<noteq> {}"
    by simp
  with run mem show ?thesis by blast
qed

section \<open>The chunking loop\<close>

lemma looping_window: "window_end (ustr ''a.aaaaaa'') 4 0 = 2"
  by (simp add: window_end_def sentence_end_def rfind_def adjust_index_def)

lemma looping_length: "length (ustr ''a.aaaaaa'') = 8"
  by (simp add: ustr_def)

lemma chunk_loop_diverges:
  "chunk_loop fuel (ustr ''a.aaaaaa'') 4 2 0 chunks = None"
proof (induction fuel arbitrary: chunks)
  case 0
  show ?case by simp
next
  case (Suc fuel)
  have "chunk_loop (Suc fuel) (ustr ''a.aaaaaa'') 4 2 0 chunks
          = chunk_loop fuel (ustr ''a.aaaaaa'') 4 2 0
              (if strip (py_slice (ustr ''a.aaaaaa'') 0 2) \<noteq> []
               then chunks @ [strip (py_slice (ustr ''a.aaaaaa'') 0 2)] else chunks)"
    by (simp add: looping_window looping_length Let_def del: ustr_Cons)
  then show ?case by (simp only: Suc.IH)
qed

text \<open>
  C4 asks that the loop of \<open>chunk_text\<close> ends for every text whenever
  \<open>0 \<le> overlap < chunk_size\<close>. It does not: with chunk size 4 and overlap 2 the text
  \<open>a.aaaaaa\<close> sends the window start back to 0 after every chunk (the window is cut after
  the full stop at position 1, and \<open>2 - overlap = 0\<close>), so no amount of fuel lets the
  loop return.
\<close>

theorem chunk_text_diverges:
  "chunk_text fuel (ustr ''a.aaaaaa'') 4 2 = None"
  by (simp add: chunk_text_def chunk_loop_diverges looping_length del: ustr_Cons)

text \<open>
  The same happens with the default configuration (chunk size 512, overlap 50): a
  description of 650 characters whose only full stop is at position 49 is cut after that
  full stop, and \<open>start = 50 - 50\<close> is 0 again.
\<close>

lemma last_index_absent: "c \<notin> set xs \<Longrightarrow> last_index c xs = None"
  by (induction xs) auto

lemma last_index_found: "c \<notin> set ys \<Longrightarrow> last_index c (xs @ c # ys) = Some (length xs)"
  by (induction xs) (auto simp: last_index_absent)

lemma chunk_loop_stuck:
  assumes "window_end text cs start - ov = start" and "start < int (length text)"
  shows "chunk_loop fuel text cs ov start acc = None"
proof (induction fuel arbitrary: acc)
  case 0
  show ?case by simp
next
  case (Suc fuel)
  from assms have "chunk_loop (Suc fuel) text cs ov start acc
      = chunk_loop fuel text cs ov start
          (if strip (py_slice text start (window_end text cs start)) \<noteq> []
           then acc @ [strip (py_slice text start (window_end text cs start))] else acc)"
    by (simp add: Let_def)
  then show ?case by (simp only: Suc.IH)
qed

lemma default_window:
  "window_end (replicate 49 97 @ [46] @ replicate 600 97) 512 0 = 50"
proof -
  let ?t = "replicate 49 97 @ [46] @ replicate 600 (97 :: nat)"
  have "take 512 ?t = replicate 49 97 @ 46 # replicate 462 97" by simp
  moreover have "(46 :: nat) \<notin> set (replicate 462 97)" by simp
  ultimately have "last_index 46 (take 512 ?t) = Some 49"
    using last_index_found [of "46 :: nat" "replicate 462 97" "replicate 49 97"] by simp
  then have "rfind ?t 46 0 512 = 49"
    by (simp add: rfind_def adjust_index_def)
  then show ?thesis by (simp add: window_end_def sentence_end_def)
qed

lemma chunk_text_default_diverges:
  "chunk_text fuel (replicate 49 97 @ [46] @ replicate 600 97) 512 50 = None"
proof -
  let ?t = "replicate 49 97 @ [46] @ replicate 600 (97 :: nat)"
  have "window_end ?t 512 0 - 50 = 0" using default_window by simp
  moreover have "0 < int (length ?t)" by simp
  ultimately have "chunk_loop fuel ?t 512 50 0 [] = None" by (rule chunk_loop_stuck)
  moreover have "\<not> int (length ?t) \<le> 512" by simp
  ultimately show ?thesis by (simp only: chunk_text_def if_False)
qed

section \<open>The size of a recommendation\<close>

lemma py_take_eq_take: "py_take k xs = take (adjust_index (length xs) k) xs"
  by (simp add: py_take_def py_slice_def adjust_index_def)

lemma py_take_length_le: "0 \<le> k \<Longrightarrow> int (length (py_take k xs)) \<le> k"
  by (simp add: py_take_eq_take adjust_index_def)

lemma py_take_nonpos: "k \<le> 0 \<Longrightarrow> length xs \<le> 1 \<Longrightarrow> py_take k xs = []"
  by (auto simp: py_take_eq_take adjust_index_def)

lemma py_take_all: "int (length xs) \<le> k \<Longrightarrow> py_take k xs = xs"
  by (auto simp: py_take_eq_take adjust_index_def)

lemma py_take_length:
  "length (py_take k xs) = min (length xs) (adjust_index (length xs) k)"
  by (simp add: py_take_eq_take)

lemma search_loop_step:
  "search_loop st k ft fa ((score, idx) # hits) acc =
     (if idx = - 1 then Inr acc
      else case document_at st idx of
             Inl e \<Rightarrow> Inl e
           | Inr doc \<Rightarrow>
               if passes_filter ft (tags doc) \<and> passes_filter fa (audience doc) then
                 (if k \<le> int (length acc) + 1 then Inr (acc @ [(doc, score)])
                  else search_loop st k ft fa hits (acc @ [(doc, score)]))
               else search_loop st k ft fa hits acc)"
  by (simp add: Let_def split: sum.splits)

lemma search_loop_length:
  "search_loop st k ft fa hits acc = Inr rs \<Longrightarrow> int (length acc) < max k 1 \<Longrightarrow>
   int (length rs) \<le> max k 1"
proof (induction hits arbitrary: acc)
  case Nil
  then show ?case by simp
next
  case (Cons hit hits)
  obtain score idx where hit: "hit = (score, idx)" by (cases hit)
  note run = Cons.prems(1) [unfolded hit search_loop_step]
  show ?case
  proof (cases "idx = - 1")
    case True
    with run Cons.prems(2) show ?thesis by simp
  next
    case False
    with run obtain doc where doc: "document_at st idx = Inr doc"
      by (cases "document_at st idx") simp_all
    show ?thesis
    proof (cases "passes_filter ft (tags doc) \<and> passes_filter fa (audience doc)")
      case pass: True
      show ?thesis
      proof (cases "k \<le> int (length acc) + 1")
        case True
        with run False doc pass have "rs = acc @ [(doc, score)]" by simp
        with Cons.prems(2) show ?thesis by simp
      next
        case stop: False
        with run False doc pass
        have next_run: "search_loop st k ft fa hits (acc @ [(doc, score)]) = Inr rs" by simp
        from stop have "int (length (acc @ [(doc, score)])) < max k 1" by simp
        from Cons.IH [OF next_run this] show ?thesis .
      qed
    next
      case False
      with run \<open>idx \<noteq> - 1\<close> doc have "search_loop st k ft fa hits acc = Inr rs" by simp
      from Cons.IH [OF this Cons.prems(2)] show ?thesis .
    qed
  qed
qed

lemma search_length:
  assumes "search faiss_search emb settings st query top_k_arg ft fa = Inr rs"
  shows "int (length rs) \<le> max (effective_top_k settings top_k_arg) 1"
proof (cases "index st = None \<or> length (documents st) = 0")
  case True
  with assms show ?thesis by (simp add: search_def)
next
  case False
  with assms show ?thesis
    by (auto simp: search_def Let_def intro: search_loop_length)
qed

lemma search_empty_store:
  "index st = None \<or> documents st = [] \<Longrightarrow>
   search faiss_search emb settings st query top_k_arg ft fa = Inr []"
  by (auto simp: search_def)

lemma merge_fallback_step:
  "merge_fallback k ids ((doc, score) # fb) docs scores =
     (if doc_id doc \<in> ids then merge_fallback k ids fb docs scores
      else if k \<le> int (length docs) + 1 then (docs @ [doc], scores @ [score * (9 / 10)])
      else merge_fallback k ids fb (docs @ [doc]) (scores @ [score * (9 / 10)]))"
  by (simp add: Let_def)

lemma merge_fallback_lengths:
  "int (length docs) < k \<Longrightarrow> length scores = length docs \<Longrightarrow>
   merge_fallback k ids fb docs scores = (docs', scores') \<Longrightarrow>
   int (length docs') \<le> k \<and> length scores' = length docs'"
proof (induction fb arbitrary: docs scores)
  case Nil
  then show ?case by auto
next
  case (Cons hit fb)
  obtain doc score where hit: "hit = (doc, score)" by (cases hit)
  note run = Cons.prems(3) [unfolded hit merge_fallback_step]
  show ?case
  proof (cases "doc_id doc \<in> ids")
    case True
    with run have "merge_fallback k ids fb docs scores = (docs', scores')" by simp
    from Cons.IH [OF Cons.prems(1,2) this] show ?thesis .
  next
    case False
    show ?thesis
    proof (cases "k \<le> int (length docs) + 1")
      case True
      with run False have "docs' = docs @ [doc]" "scores' = scores @ [score * (9 / 10)]"
        by simp_all
      with Cons.prems(1,2) show ?thesis by simp
    next
      case more: False
      with run False have
        next_run: "merge_fallback k ids fb (docs @ [doc]) (scores @ [score * (9 / 10)])
                     = (docs', scores')"
        by simp
      from more have "int (length (docs @ [doc])) < k" by simp
      moreover from Cons.prems(2)
      have "length (scores @ [score * (9 / 10)]) = length (docs @ [doc])" by simp
      ultimately show ?thesis using next_run by (rule Cons.IH)
    qed
  qed
qed

lemma filtered_results_length:
  assumes "filtered_results faiss_search emb settings st entities = Inr rs"
  shows "int (length rs) \<le> max (top_k settings) 1"
proof -
  have "effective_top_k settings (Some (top_k settings)) = top_k settings"
    by (simp add: effective_top_k_def)
  with search_length [of faiss_search emb settings st _ "Some (top_k settings)" _ _ rs] assms
  show ?thesis by (simp add: filtered_results_def Let_def)
qed

lemma execute_result_size:
  assumes "execute faiss_search emb settings st entities = Inr (docs, scores, q)"
  shows "length scores = length docs \<and>
         (0 \<le> top_k settings \<longrightarrow> int (length docs) \<le> top_k settings) \<and>
         (top_k settings \<le> 0 \<longrightarrow> docs = [])"
proof -
  from assms obtain rs where rs: "filtered_results faiss_search emb settings st entities = Inr rs"
    by (auto simp: execute_def Let_def split: sum.splits)
  note bound = filtered_results_length [OF rs]
  show ?thesis
  proof (cases "int (length (map fst rs)) < top_k settings")
    case True
    with assms rs obtain fb docs' scores' where
      merged: "merge_fallback (top_k settings) (set (map doc_id (map fst rs))) fb
                 (map fst rs) (map snd rs) = (docs', scores')" and
      res: "docs = py_take (top_k settings) docs'" "scores = py_take (top_k settings) scores'"
      by (auto simp: execute_def Let_def split: sum.splits prod.splits)
    from True have "length (map snd rs) = length (map fst rs)" by simp
    from merge_fallback_lengths [OF True this merged]
    have m: "int (length docs') \<le> top_k settings" "length scores' = length docs'" by simp_all
    from m(1) True have pos: "0 < top_k settings" by simp
    from res m(2) have "length scores = length docs" by (simp add: py_take_length)
    moreover from res(1) pos have "int (length docs) \<le> top_k settings"
      by (simp add: py_take_length_le)
    ultimately show ?thesis using pos by simp
  next
    case False
    with assms rs have
      res: "docs = py_take (top_k settings) (map fst rs)"
        "scores = py_take (top_k settings) (map snd rs)"
      by (auto simp: execute_def Let_def split: sum.splits)
    from res have "length scores = length docs" by (simp add: py_take_length)
    moreover from res(1) have "0 \<le> top_k settings \<longrightarrow> int (length docs) \<le> top_k settings"
      by (simp add: py_take_length_le)
    moreover have "top_k settings \<le> 0 \<longrightarrow> docs = []"
    proof
      assume k: "top_k settings \<le> 0"
      with bound have "length (map fst rs) \<le> 1" by simp
      with k res(1) show "docs = []" by (simp add: py_take_nonpos)
    qed
    ultimately show ?thesis by blast
  qed
qed

lemma execute_empty_store:
  assumes "index st = None \<or> documents st = []"
  shows "execute faiss_search emb settings st entities = Inr ([], [], build_search_query entities)"
proof -
  from assms have
    "filtered_results faiss_search emb settings st entities = Inr []"
    "fallback_results faiss_search emb settings st (build_search_query entities) = Inr []"
    by (simp_all add: filtered_results_def fallback_results_def Let_def search_empty_store)
  then show ?thesis
    by (simp add: execute_def Let_def py_take_eq_take)
qed

lemma document_at_in_range:
  assumes "0 \<le> i" and "i < int (length (documents st))"
  shows "\<exists>d. document_at st i = Inr d \<and> (fst (documents st ! nat i), d) \<in> set (documents st)"
proof -
  let ?key = "fst (documents st ! nat i)"
  from assms have key: "py_index (map fst (documents st)) i = Inr ?key"
    by (simp add: py_index_def)
  from assms have "?key \<in> fst ` set (documents st)" by auto
  then have "map_of (documents st) ?key \<noteq> None"
    by (simp add: map_of_eq_None_iff)
  then obtain d where d: "map_of (documents st) ?key = Some d" by blast
  with key have "document_at st i = Inr d" by (simp add: document_at_def)
  with d show ?thesis by (auto dest: map_of_SomeD)
qed

lemma flat_ip_search_in_range:
  "\<forall>(s, i) \<in> set (flat_ip_search vs qv n). - 1 \<le> i \<and> i < int (length vs)"
proof -
  have "- 1 \<le> i \<and> i < int (length vs)" if "(s, i) \<in> set (flat_ip_search vs qv n)" for s i
  proof -
    from that have "(s, i) \<in> set (zip (map (inner_product qv) vs) (map int [0..<length vs]))"
      unfolding flat_ip_search_def by (auto dest: in_set_takeD)
    then have "i \<in> set (map int [0..<length vs])" by (rule set_zip_rightD)
    then show ?thesis by auto
  qed
  then show ?thesis by blast
qed

lemma duplicate_store_documents: "documents duplicate_store = [(doc_id doc_a, doc_a2)]"
  and duplicate_store_vectors: "index_vectors duplicate_store = [[1, 0], [0, 1]]"
  and duplicate_store_index: "index duplicate_store \<noteq> None"
  by (simp_all add: duplicate_store_def add_documents_def new_store_def index_vectors_def
      doc_a2_def doc_a_def toy_emb_def embedding_text_def)

lemma duplicate_hits: "flat_ip_search [[1, 0], [0, 1]] [0, 1] 1 = [(1, 1)]"
  by (simp add: flat_ip_search_def inner_product_def upt_rec [of 0] upt_rec [of 1])

lemma duplicate_document_at: "document_at duplicate_store 1 = Inl IndexError"
  by (simp add: document_at_def duplicate_store_documents py_index_def)

lemma no_entities_filters:
  "hobbies no_entities @ preferred_styles no_entities = []"
  "get_audience_filter (relationship no_entities) = []"
  by (simp_all add: no_entities_def get_audience_filter_def)

lemma top_k_settings_k [simp]: "top_k (settings_k k) = k"
  by (simp add: settings_k_def)

lemma reingested_store_documents:
  "documents reingested_store = [(doc_id doc_a, doc_a), (doc_id doc_c, doc_c)]"
  and reingested_store_vectors:
  "index_vectors reingested_store = [[1, 0], [0, 1], [1, 0], [0, 1]]"
  and reingested_store_index: "index reingested_store \<noteq> None"
  by (simp_all add: reingested_store_def add_documents_def new_store_def index_vectors_def
      save_index_def Let_def doc_a_def doc_c_def toy_emb_def embedding_text_def)

lemma reingested_hits:
  "flat_ip_search [[1, 0], [0, 1], [1, 0], [0, 1]] [0, 1] 2 = [(1, 1), (1, 3)]"
  by (simp add: flat_ip_search_def inner_product_def upt_rec [of 0] upt_rec [of 1]
      upt_rec [of 2] upt_rec [of 3])

lemma reingested_document_at:
  "document_at reingested_store 1 = Inr doc_c"
  "document_at reingested_store 3 = Inl IndexError"
  by (simp_all add: document_at_def reingested_store_documents py_index_def doc_a_def doc_c_def)

text \<open>
  C1 asks that \<open>recommend(preferences, topK=k)\<close> returns at most \<open>k\<close> results, none
  when \<open>k \<le> 0\<close> or when the index holds no documents, and never raises. The bounds hold
  whenever the call returns (\<open>execute_result_size\<close>, \<open>execute_empty_store\<close>), but the call
  can raise. \<open>add_documents\<close> overwrites the dict entry of an id that is already present
  and still appends its vector, so the index comes to hold more vectors than the dict has
  keys, and \<open>list(self.documents.keys())[idx]\<close> raises \<open>IndexError\<close> at a hit beyond the
  keys. This happens with \<open>topK = 2\<close> after the same two records were added twice, and
  with \<open>topK = 1\<close> after one batch in which two records share an id. (For \<open>k \<le> 0\<close>
  the count \<open>min(2k, n) \<le> 0\<close> goes to the index library unguarded; what the library
  does with it is not part of this development.)
\<close>

theorem recommend_raises_index_error:
  "execute flat_ip_search toy_emb (settings_k 2) reingested_store no_entities = Inl IndexError \<and>
   execute flat_ip_search toy_emb (settings_k 1) duplicate_store no_entities = Inl IndexError"
proof -
  have "filtered_results flat_ip_search toy_emb (settings_k 2) reingested_store no_entities
          = Inl IndexError"
    using reingested_store_index
    by (simp add: filtered_results_def no_entities_filters search_def effective_top_k_def
        reingested_store_documents reingested_store_vectors encode_query_toy reingested_hits
        reingested_document_at example_tags)
  moreover
  have "filtered_results flat_ip_search toy_emb (settings_k 1) duplicate_store no_entities
          = Inl IndexError"
    using duplicate_store_index
    by (simp add: filtered_results_def no_entities_filters search_def effective_top_k_def
        duplicate_store_documents duplicate_store_vectors encode_query_toy duplicate_hits
        duplicate_document_at)
  ultimately show ?thesis by (simp add: execute_def)
qed

section \<open>The fallback search and the merge\<close>

lemma merge_fallback_take_filter:
  "int (length docs) < k \<Longrightarrow>
   merge_fallback k ids fb docs scores =
     (docs @ map fst (take (nat (k - int (length docs))) (filter (\<lambda>(d, s). doc_id d \<notin> ids) fb)),
      scores @ map (\<lambda>(d, s). s * (9 / 10))
         (take (nat (k - int (length docs))) (filter (\<lambda>(d, s). doc_id d \<notin> ids) fb)))"
proof (induction fb arbitrary: docs scores)
  case Nil
  show ?case by simp
next
  case (Cons hit fb)
  obtain doc score where hit: "hit = (doc, score)" by (cases hit)
  show ?case
  proof (cases "doc_id doc \<in> ids")
    case True
    with Cons.IH [OF Cons.prems] hit show ?thesis by (simp add: merge_fallback_step)
  next
    case False
    show ?thesis
    proof (cases "k \<le> int (length docs) + 1")
      case True
      with Cons.prems have "nat (k - int (length docs)) = Suc 0" by simp
      with True False hit show ?thesis by (simp add: merge_fallback_step)
    next
      case more: False
      then have lt: "int (length (docs @ [doc])) < k" by simp
      from more have "nat (k - int (length docs)) = Suc (nat (k - int (length (docs @ [doc]))))"
        by simp
      with Cons.IH [OF lt, of "scores @ [score * (9 / 10)]"] more False hit
      show ?thesis by (simp add: merge_fallback_step)
    qed
  qed
qed

lemma search_loop_distinct:
  assumes keys: "distinct (map fst (documents st))"
    and ids: "\<forall>(key, doc) \<in> set (documents st). doc_id doc = key"
  shows "\<forall>(s, i) \<in> set hits. - 1 \<le> i \<and> i < int (length (documents st)) \<Longrightarrow>
         distinct (filter (\<lambda>i. i \<noteq> - 1) (map snd hits)) \<Longrightarrow>
         distinct (map (\<lambda>r. doc_id (fst r)) acc) \<Longrightarrow>
         \<forall>(s, i) \<in> set hits. i \<noteq> - 1 \<longrightarrow>
            fst (documents st ! nat i) \<notin> (\<lambda>r. doc_id (fst r)) ` set acc \<Longrightarrow>
         \<exists>rs. search_loop st k ft fa hits acc = Inr rs \<and> distinct (map (\<lambda>r. doc_id (fst r)) rs)"
proof (induction hits arbitrary: acc)
  case Nil
  then show ?case by simp
next
  case (Cons hit hits)
  obtain score idx where hit: "hit = (score, idx)" by (cases hit)
  from Cons.prems(1) have range: "\<forall>(s, i) \<in> set hits. - 1 \<le> i \<and> i < int (length (documents st))"
    by simp
  from Cons.prems(2) have dist: "distinct (filter (\<lambda>i. i \<noteq> - 1) (map snd hits))"
    by (simp split: if_splits)
  from Cons.prems(4) have away: "\<forall>(s, i) \<in> set hits. i \<noteq> - 1 \<longrightarrow>
      fst (documents st ! nat i) \<notin> (\<lambda>r. doc_id (fst r)) ` set acc"
    by simp
  show ?case
  proof (cases "idx = - 1")
    case True
    with hit Cons.prems(3) show ?thesis by (simp add: search_loop_step)
  next
    case False
    with Cons.prems(1) hit have idx: "0 \<le> idx" "idx < int (length (documents st))" by auto
    from document_at_in_range [OF idx] obtain doc where
      doc: "document_at st idx = Inr doc" and
      mem: "(fst (documents st ! nat idx), doc) \<in> set (documents st)"
      by blast
    from ids mem have doc_key: "doc_id doc = fst (documents st ! nat idx)" by auto
    show ?thesis
    proof (cases "passes_filter ft (tags doc) \<and> passes_filter fa (audience doc)")
      case skip: False
      from Cons.IH [OF range dist Cons.prems(3) away] hit doc False skip
      show ?thesis by (simp add: search_loop_step)
    next
      case pass: True
      let ?acc' = "acc @ [(doc, score)]"
      from Cons.prems(4) hit False doc_key have "doc_id doc \<notin> (\<lambda>r. doc_id (fst r)) ` set acc"
        by simp
      with Cons.prems(3) have acc': "distinct (map (\<lambda>r. doc_id (fst r)) ?acc')"
        by simp
      show ?thesis
      proof (cases "k \<le> int (length acc) + 1")
        case True
        with hit doc False pass acc' show ?thesis by (simp add: search_loop_step)
      next
        case more: False
        have fresh: "fst (documents st ! nat i) \<notin> (\<lambda>r. doc_id (fst r)) ` set ?acc'"
          if hit_i: "(s, i) \<in> set hits" and i: "i \<noteq> - 1" for s i
        proof (rule notI)
          assume bad: "fst (documents st ! nat i) \<in> (\<lambda>r. doc_id (fst r)) ` set ?acc'"
          from away hit_i i have "fst (documents st ! nat i) \<notin> (\<lambda>r. doc_id (fst r)) ` set acc"
            by auto
          with bad doc_key have same: "fst (documents st ! nat i) = fst (documents st ! nat idx)"
            by auto
          from range hit_i i have i_range: "0 \<le> i" "i < int (length (documents st))" by auto
          from same i_range idx have
            "map fst (documents st) ! nat i = map fst (documents st) ! nat idx"
            by simp
          moreover from i_range idx have
            "nat i < length (map fst (documents st))" "nat idx < length (map fst (documents st))"
            by simp_all
          ultimately have "nat i = nat idx"
            using nth_eq_iff_index_eq [OF keys, of "nat i" "nat idx"] by blast
          with i_range idx have "i = idx" by simp
          moreover from hit_i i have "i \<in> set (filter (\<lambda>i. i \<noteq> - 1) (map snd hits))"
            by force
          moreover from Cons.prems(2) hit False
          have "idx \<notin> set (filter (\<lambda>i. i \<noteq> - 1) (map snd hits))" by simp
          ultimately show False by simp
        qed
        then have away': "\<forall>(s, i) \<in> set hits. i \<noteq> - 1 \<longrightarrow>
            fst (documents st ! nat i) \<notin> (\<lambda>r. doc_id (fst r)) ` set ?acc'"
          by blast
        from Cons.IH [OF range dist acc' away'] hit doc False pass more
        show ?thesis by (simp add: search_loop_step)
      qed
    qed
  qed
qed

lemma search_distinct:
  assumes "store_ok st" and "\<forall>vs qv n. valid_hits (length vs) (faiss_search vs qv n)"
  shows "\<exists>rs. search faiss_search emb settings st query top_k_arg ft fa = Inr rs \<and>
              distinct (map (\<lambda>r. doc_id (fst r)) rs)"
proof (cases "index st = None \<or> length (documents st) = 0")
  case True
  then show ?thesis by (simp add: search_def)
next
  case False
  let ?hits = "faiss_search (index_vectors st) (encode_query emb query)
      (min (effective_top_k settings top_k_arg * 2) (int (length (documents st))))"
  from assms(1) have keys: "distinct (map fst (documents st))"
    and ids: "\<forall>(key, doc) \<in> set (documents st). doc_id doc = key"
    and len: "length (index_vectors st) = length (documents st)"
    by (simp_all add: store_ok_def)
  from assms(2) have "valid_hits (length (index_vectors st)) ?hits" by blast
  with len have range: "\<forall>(s, i) \<in> set ?hits. - 1 \<le> i \<and> i < int (length (documents st))"
    and dist: "distinct (filter (\<lambda>i. i \<noteq> - 1) (map snd ?hits))"
    by (simp_all add: valid_hits_def)
  have "\<exists>rs. search_loop st (effective_top_k settings top_k_arg) ft fa ?hits [] = Inr rs \<and>
      distinct (map (\<lambda>r. doc_id (fst r)) rs)"
    by (rule search_loop_distinct [OF keys ids range dist]) simp_all
  with False show ?thesis by (simp add: search_def Let_def)
qed

lemma distinct_map_sort_key: "distinct (map g (sort_key f xs)) = distinct (map g xs)"
  by (simp add: distinct_map)

lemma flat_ip_search_valid: "valid_hits (length vs) (flat_ip_search vs qv n)"
proof -
  let ?pairs = "zip (map (inner_product qv) vs) (map int [0..<length vs])"
  have "map snd ?pairs = map int [0..<length vs]" by simp
  moreover have "distinct (map int [0..<length vs])" by (simp add: distinct_map)
  ultimately have "distinct (map snd ?pairs)" by simp
  then have "distinct (map snd (sort_key (\<lambda>(s, i). - s) ?pairs))"
    by (simp only: distinct_map_sort_key)
  then have "distinct (take (nat n) (map snd (sort_key (\<lambda>(s, i). - s) ?pairs)))"
    by (rule distinct_take)
  then have "distinct (map snd (flat_ip_search vs qv n))"
    by (simp add: flat_ip_search_def take_map)
  then have "distinct (filter (\<lambda>i. i \<noteq> - 1) (map snd (flat_ip_search vs qv n)))"
    by (rule distinct_filter)
  with flat_ip_search_in_range [of vs qv n] show ?thesis by (simp add: valid_hits_def)
qed

lemma example_unmatched:
  "\<not> passes_filter (Some [ustr ''none'']) (tags doc_a)"
  "\<not> passes_filter (Some [ustr ''none'']) (tags doc_b)"
  "\<not> passes_filter (Some [ustr ''none'']) (tags doc_c)"
  by (simp_all add: passes_filter_def doc_a_def doc_b_def doc_c_def photo_def history_def)

text \<open>
  C2, as the spec states it: the second, unfiltered search is "for topK results". With
  \<open>topK = 1\<close> and a tag filter that nothing matches, the filtered search returns no
  document, and the fallback search that \<open>execute\<close> issues returns two documents, where
  a search for one result returns one: the code asks for \<open>settings.top_k * 2\<close>.
\<close>

theorem fallback_search_size_counterexample:
  "filtered_results flat_ip_search toy_emb (settings_k 1) example_store
     (no_entities\<lparr>hobbies := [ustr ''none'']\<rparr>) = Inr [] \<and>
   fallback_results flat_ip_search toy_emb (settings_k 1) example_store
     (build_search_query (no_entities\<lparr>hobbies := [ustr ''none'']\<rparr>))
     = Inr [(doc_c, 1), (doc_b, 4 / 5)] \<and>
   search flat_ip_search toy_emb (settings_k 1) example_store
     (build_search_query (no_entities\<lparr>hobbies := [ustr ''none'']\<rparr>)) (Some 1) None None
     = Inr [(doc_c, 1)]"
proof -
  let ?e = "no_entities\<lparr>hobbies := [ustr ''none'']\<rparr>"
  have filters: "preferred_styles no_entities = []"
    "get_audience_filter (relationship no_entities) = []"
    by (simp_all add: no_entities_def get_audience_filter_def)
  have "filtered_results flat_ip_search toy_emb (settings_k 1) example_store ?e = Inr []"
    using example_store_index
    by (simp add: filtered_results_def Let_def filters search_def effective_top_k_def
        example_store_documents encode_query_toy example_hits example_document_at
        example_unmatched del: ustr_Cons)
  moreover have "fallback_results flat_ip_search toy_emb (settings_k 1) example_store
      (build_search_query ?e) = Inr [(doc_c, 1), (doc_b, 4 / 5)]"
    using example_store_index
    by (simp add: fallback_results_def search_def effective_top_k_def
        example_store_documents encode_query_toy example_hits example_document_at example_tags)
  moreover have "search flat_ip_search toy_emb (settings_k 1) example_store
      (build_search_query ?e) (Some 1) None None = Inr [(doc_c, 1)]"
    using example_store_index
    by (simp add: search_def effective_top_k_def
        example_store_documents encode_query_toy example_hits example_document_at example_tags)
  ultimately show ?thesis by blast
qed

text \<open>
  C2, amended: the fallback search is the unfiltered search for \<open>2 * topK\<close> results with
  the same query. On a store in which no id was added twice, and with an index search that
  reports no position twice, both searches return, and whenever the filtered search
  returns fewer than \<open>topK\<close> documents the result of \<open>recommend\<close> is the filtered
  results followed by the fallback results whose id is not among the filtered ones, in
  order, each with its score multiplied by 0.9, as many of them as are needed to reach
  \<open>topK\<close> or all of them if the pool is exhausted first. No document id appears twice in
  the result.
\<close>

theorem fallback_merge:
  assumes "store_ok st"
    and "\<forall>vs qv n. valid_hits (length vs) (faiss_search vs qv n)"
  shows "\<exists>prim fb docs scores.
     filtered_results faiss_search emb settings st entities = Inr prim \<and>
     fallback_results faiss_search emb settings st (build_search_query entities) = Inr fb \<and>
     search faiss_search emb settings st (build_search_query entities)
       (Some (2 * top_k settings)) None None = Inr fb \<and>
     execute faiss_search emb settings st entities
       = Inr (docs, scores, build_search_query entities) \<and>
     distinct (map doc_id docs) \<and>
     (int (length prim) < top_k settings \<longrightarrow>
        docs = map fst prim @
          map fst (take (nat (top_k settings - int (length prim)))
            (filter (\<lambda>(d, s). doc_id d \<notin> set (map (\<lambda>r. doc_id (fst r)) prim)) fb)) \<and>
        scores = map snd prim @
          map (\<lambda>(d, s). s * (9 / 10)) (take (nat (top_k settings - int (length prim)))
            (filter (\<lambda>(d, s). doc_id d \<notin> set (map (\<lambda>r. doc_id (fst r)) prim)) fb)))"
proof -
  let ?k = "top_k settings" and ?q = "build_search_query entities"
  from search_distinct [OF assms] obtain prim where
    prim: "filtered_results faiss_search emb settings st entities = Inr prim" and
    prim_ids: "distinct (map (\<lambda>r. doc_id (fst r)) prim)"
    unfolding filtered_results_def Let_def by blast
  from search_distinct [OF assms] obtain fb where
    fb: "fallback_results faiss_search emb settings st ?q = Inr fb" and
    fb_ids: "distinct (map (\<lambda>r. doc_id (fst r)) fb)"
    unfolding fallback_results_def by blast
  from fb have fb2: "search faiss_search emb settings st ?q (Some (2 * ?k)) None None = Inr fb"
    by (simp add: fallback_results_def mult.commute)
  let ?ids = "set (map (\<lambda>r. doc_id (fst r)) prim)"
  let ?new = "take (nat (?k - int (length prim))) (filter (\<lambda>(d, s). doc_id d \<notin> ?ids) fb)"
  show ?thesis
  proof (cases "int (length prim) < ?k")
    case True
    let ?docs = "map fst prim @ map fst ?new"
    let ?scores = "map snd prim @ map (\<lambda>(d, s). s * (9 / 10)) ?new"
    from True have "int (length (map fst prim)) < ?k" by simp
    from merge_fallback_take_filter [OF this, of "set (map doc_id (map fst prim))" fb "map snd prim"]
    have merged: "merge_fallback ?k (set (map doc_id (map fst prim))) fb (map fst prim) (map snd prim)
        = (?docs, ?scores)"
      by (simp add: comp_def)
    have "length ?new \<le> nat (?k - int (length prim))" by simp
    with True have len: "int (length ?docs) \<le> ?k" "int (length ?scores) \<le> ?k" by simp_all
    from prim fb merged True have
      run: "execute faiss_search emb settings st entities
              = Inr (py_take ?k ?docs, py_take ?k ?scores, ?q)"
      by (simp add: execute_def Let_def)
    from len have "py_take ?k ?docs = ?docs" "py_take ?k ?scores = ?scores"
      by (simp_all only: py_take_all)
    with run have run': "execute faiss_search emb settings st entities = Inr (?docs, ?scores, ?q)"
      by simp
    have "distinct (map (\<lambda>r. doc_id (fst r)) (filter (\<lambda>(d, s). doc_id d \<notin> ?ids) fb))"
      using fb_ids by (rule distinct_map_filter)
    then have "distinct (take (nat (?k - int (length prim)))
        (map (\<lambda>r. doc_id (fst r)) (filter (\<lambda>(d, s). doc_id d \<notin> ?ids) fb)))"
      by (rule distinct_take)
    then have new_ids: "distinct (map (\<lambda>r. doc_id (fst r)) ?new)" by (simp only: take_map)
    have apart: "doc_id (fst r) \<notin> ?ids" if "r \<in> set ?new" for r
    proof -
      from that have "r \<in> set (filter (\<lambda>(d, s). doc_id d \<notin> ?ids) fb)" by (rule in_set_takeD)
      then show ?thesis by (simp add: case_prod_beta)
    qed
    define new where "new = ?new"
    define ids where "ids = ?ids"
    from new_ids have n1: "distinct (map (\<lambda>r. doc_id (fst r)) new)" by (simp only: new_def)
    have n2: "doc_id (fst r) \<notin> ids" if "r \<in> set new" for r
      using that unfolding new_def ids_def by (rule apart)
    from prim_ids have n3: "distinct (map (\<lambda>r. doc_id (fst r)) prim)" .
    have n4: "ids = set (map (\<lambda>r. doc_id (fst r)) prim)" by (simp only: ids_def)
    have "distinct (map doc_id (map fst prim @ map fst new))"
      using n1 n2 n3 n4 by (fastforce simp: comp_def image_iff)
    then have "distinct (map doc_id ?docs)" by (simp only: new_def)
    with prim fb fb2 run' True show ?thesis by blast
  next
    case False
    from prim False have
      run: "execute faiss_search emb settings st entities
              = Inr (py_take ?k (map fst prim), py_take ?k (map snd prim), ?q)"
      by (simp add: execute_def Let_def)
    from prim_ids have "distinct (map doc_id (map fst prim))" by (simp add: comp_def)
    then have "distinct (take (adjust_index (length (map fst prim)) ?k) (map doc_id (map fst prim)))"
      by (rule distinct_take)
    then have "distinct (map doc_id (py_take ?k (map fst prim)))"
      by (simp only: py_take_eq_take take_map)
    with prim fb fb2 run False show ?thesis by blast
  qed
qed

lemma example_partner:
  "get_audience_filter (Some (ustr ''partner'')) = [adults, youth]"
  "passes_filter (Some [adults, youth]) (audience doc_a)"
  "\<not> passes_filter (Some [adults, youth]) (audience doc_c)"
  by (simp_all add: get_audience_filter_def audience_map_def passes_filter_def doc_a_def doc_c_def
      adults_def youth_def family_def children_def)

lemma example_doc_ids:
  "doc_id doc_b \<noteq> doc_id doc_a" "doc_id doc_c \<noteq> doc_id doc_a"
  by (simp_all add: doc_a_def doc_b_def doc_c_def)

lemma example_filtered_partner:
  "filtered_results flat_ip_search toy_emb (settings_k 3) example_store
     (no_entities\<lparr>hobbies := [photo], relationship := Some (ustr ''partner'')\<rparr>)
     = Inr [(doc_a, 0)]"
proof -
  have "preferred_styles no_entities = []" by (simp add: no_entities_def)
  then show ?thesis
    using example_store_index
    by (simp add: filtered_results_def Let_def search_def effective_top_k_def
        example_store_documents encode_query_toy example_hits example_document_at
        example_tags example_partner del: ustr_Cons)
qed

lemma example_fallback_partner:
  "fallback_results flat_ip_search toy_emb (settings_k 3) example_store q
     = Inr [(doc_c, 1), (doc_b, 4 / 5), (doc_a, 0)]"
  using example_store_index
  by (simp add: fallback_results_def search_def effective_top_k_def
      example_store_documents encode_query_toy example_hits example_document_at example_tags)

theorem fallback_merge_witness:
  "store_ok example_store \<and>
   filtered_results flat_ip_search toy_emb (settings_k 3) example_store
     (no_entities\<lparr>hobbies := [photo], relationship := Some (ustr ''partner'')\<rparr>)
     = Inr [(doc_a, 0)] \<and>
   execute flat_ip_search toy_emb (settings_k 3) example_store
     (no_entities\<lparr>hobbies := [photo], relationship := Some (ustr ''partner'')\<rparr>)
     = Inr ([doc_a, doc_c, doc_b], [0, 9 / 10, 18 / 25],
            build_search_query
              (no_entities\<lparr>hobbies := [photo], relationship := Some (ustr ''partner'')\<rparr>)) \<and>
   distinct (map doc_id [doc_a, doc_c, doc_b])"
proof -
  let ?e = "no_entities\<lparr>hobbies := [photo], relationship := Some (ustr ''partner'')\<rparr>"
  have lib: "\<forall>vs qv n. valid_hits (length vs) (flat_ip_search vs qv n)"
    by (simp add: flat_ip_search_valid)
  from fallback_merge [OF example_store_ok lib, of toy_emb "settings_k 3" ?e]
  obtain prim fb docs scores where
    prim: "filtered_results flat_ip_search toy_emb (settings_k 3) example_store ?e = Inr prim" and
    fb: "fallback_results flat_ip_search toy_emb (settings_k 3) example_store
           (build_search_query ?e) = Inr fb" and
    run: "execute flat_ip_search toy_emb (settings_k 3) example_store ?e
            = Inr (docs, scores, build_search_query ?e)" and
    ids: "distinct (map doc_id docs)" and
    merged: "int (length prim) < top_k (settings_k 3) \<longrightarrow>
        docs = map fst prim @
          map fst (take (nat (top_k (settings_k 3) - int (length prim)))
            (filter (\<lambda>(d, s). doc_id d \<notin> set (map (\<lambda>r. doc_id (fst r)) prim)) fb)) \<and>
        scores = map snd prim @
          map (\<lambda>(d, s). s * (9 / 10)) (take (nat (top_k (settings_k 3) - int (length prim)))
            (filter (\<lambda>(d, s). doc_id d \<notin> set (map (\<lambda>r. doc_id (fst r)) prim)) fb))"
    by blast
  from prim [unfolded example_filtered_partner] have p: "prim = [(doc_a, 0)]" by simp
  from fb [unfolded example_fallback_partner]
  have f: "fb = [(doc_c, 1), (doc_b, 4 / 5), (doc_a, 0)]" by simp
  from merged have "docs = [doc_a, doc_c, doc_b] \<and> scores = [0, 9 / 10, 18 / 25]"
    unfolding p f by (simp add: example_doc_ids)
  with run ids example_store_ok example_filtered_partner show ?thesis
    by (simp del: ustr_Cons)
qed

section \<open>The chunks of a description\<close>

lemma adjust_index_le: "adjust_index n i \<le> n"
  by (simp add: adjust_index_def nat_le_iff)





lemma rfind_absent: "c \<notin> set text \<Longrightarrow> rfind text c a b = - 1"
proof -
  assume "c \<notin> set text"
  then have "c \<notin> set (take (adjust_index (length text) b - adjust_index (length text) a)
                        (drop (adjust_index (length text) a) text))"
    by (auto dest: in_set_takeD in_set_dropD)
  then show ?thesis by (simp add: rfind_def Let_def last_index_absent)
qed


lemma sentence_end_absent:
  "46 \<notin> set text \<Longrightarrow> 33 \<notin> set text \<Longrightarrow> 63 \<notin> set text \<Longrightarrow> sentence_end text a b = - 1"
  by (simp add: sentence_end_def rfind_absent)






lemma chunk_loop_step:
  "chunk_loop (Suc fuel) text cs ov start acc =
     (if start < int (length text) then
        (if int (length text) \<le> window_end text cs start - ov then
           Some (if strip (py_slice text start (window_end text cs start)) \<noteq> []
                 then acc @ [strip (py_slice text start (window_end text cs start))] else acc)
         else chunk_loop fuel text cs ov (window_end text cs start - ov)
                (if strip (py_slice text start (window_end text cs start)) \<noteq> []
                 then acc @ [strip (py_slice text start (window_end text cs start))] else acc))
      else Some acc)"
  by (simp add: Let_def)




lemma window_end_plain:
  "46 \<notin> set text \<Longrightarrow> 33 \<notin> set text \<Longrightarrow> 63 \<notin> set text \<Longrightarrow>
   window_end text cs start = start + cs"
  by (simp add: window_end_def Let_def sentence_end_absent)












lemma create_exhibition_chunks_descriptions:
  "create_exhibition_chunks fuel settings doc = Some chunk_docs \<Longrightarrow>
   chunk_text fuel (description doc) (chunk_size settings) (chunk_overlap settings)
     = Some (map description chunk_docs)"
proof -
  assume run: "create_exhibition_chunks fuel settings doc = Some chunk_docs"
  then obtain chunks where
    chunks: "chunk_text fuel (description doc) (chunk_size settings) (chunk_overlap settings)
               = Some chunks" and
    docs: "chunk_docs = map (\<lambda>(i, chunk).
             doc\<lparr>doc_id := doc_id doc @ ustr ''_chunk_'' @ decimal i, description := chunk\<rparr>)
             (enumerate 0 chunks)"
    by (auto simp: create_exhibition_chunks_def split: option.splits)
  have "map description chunk_docs = map snd (enumerate 0 chunks)"
    unfolding docs by (simp add: case_prod_beta comp_def del: ustr_Cons)
  also have "\<dots> = chunks" by (simp add: enumerate_eq_zip)
  finally show ?thesis using chunks by simp
qed

text \<open>
  When the description holds no whitespace and no sentence terminator and
  \<open>0 \<le> overlap < chunk_size\<close>, every window advances the start by
  \<open>chunk_size - overlap\<close>, and as many units of fuel as the description has characters
  suffice for the loop to return.
\<close>

lemma chunk_loop_plain_returns:
  assumes no_stop: "46 \<notin> set text" "33 \<notin> set text" "63 \<notin> set text"
    and ov: "0 \<le> ov" "ov < cs"
  shows "s < length text \<Longrightarrow> length text - s \<le> fuel \<Longrightarrow>
         \<exists>chunks. chunk_loop fuel text cs ov (int s) acc = Some chunks"
proof (induction fuel arbitrary: s acc)
  case 0
  then show ?case by simp
next
  case (Suc fuel)
  let ?s' = "s + (nat cs - nat ov)"
  have w: "window_end text cs (int s) = int s + cs"
    using no_stop by (rule window_end_plain)
  from ov have next_start: "int s + cs - ov = int ?s'" by simp
  from ov have adv: "s < ?s'" by simp
  let ?acc' = "if strip (py_slice text (int s) (int s + cs)) \<noteq> []
               then acc @ [strip (py_slice text (int s) (int s + cs))] else acc"
  from Suc.prems(1) have lt: "int s < int (length text)" by simp
  show ?case
  proof (cases "int (length text) \<le> int s + cs - ov")
    case True
    with lt show ?thesis by (simp only: chunk_loop_step w if_True) blast
  next
    case False
    note False [unfolded next_start]
    then have s': "?s' < length text" by linarith
    with adv Suc.prems(2) have "length text - ?s' \<le> fuel" by linarith
    from Suc.IH [OF s' this, of ?acc']
    obtain chunks where "chunk_loop fuel text cs ov (int ?s') ?acc' = Some chunks" by blast
    then have "chunk_loop fuel text cs ov (int s + cs - ov) ?acc' = Some chunks"
      by (simp only: next_start)
    with lt False show ?thesis by (simp only: chunk_loop_step w if_True if_False) blast
  qed
qed

lemma chunk_text_plain_returns:
  assumes "46 \<notin> set text" "33 \<notin> set text" "63 \<notin> set text" "0 \<le> overlap" "overlap < chunk_sz"
  shows "\<exists>chunks. chunk_text (length text) text chunk_sz overlap = Some chunks"
proof (cases "int (length text) \<le> chunk_sz")
  case True
  then show ?thesis by (simp add: chunk_text_def)
next
  case False
  with assms(4,5) have "0 < length text" by linarith
  from chunk_loop_plain_returns [OF assms this, of "length text" "[]"] False
  show ?thesis by (simp add: chunk_text_def)
qed

section \<open>The expiry filter\<close>

































end
